theory Spec2Isabelle
  imports Main "HOL-Library.Char_ord" "HOL-Library.List_Lexorder" "HOL-Library.Multiset"
begin

section \<open>Endpoint synthesis of the DNS operator (api/v1alpha1/dnsrecord\_endpoints.go)\<close>

text \<open>
  A shallow embedding of \<^verbatim>\<open>GenerateEndpoints\<close> and the functions it calls. Go strings
  are byte strings (\<open>string\<close>), Go's \<^verbatim>\<open>int\<close> and \<^verbatim>\<open>TTL\<close> are \<open>int\<close> (the code
  does no arithmetic on them), a nil slice and an empty slice are both \<open>[]\<close>, and a
  pointer that may be nil is an \<open>option\<close>. Endpoints are heap objects that the code
  mutates through pointers, so the heap is explicit: a list of cells, a pointer being the
  index of its cell, a fresh allocation being appended at the end.
\<close>

subsection \<open>Data model\<close>

text \<open>A Go \<^verbatim>\<open>map[string]string\<close> is the list of its entries, read with \<open>map_of\<close>.\<close>

type_synonym labels = "(string \<times> string) list"

text \<open>\<^verbatim>\<open>v1.LabelSelector\<close>; \<open>None\<close> is a nil map or a nil slice, which \<^verbatim>\<open>Validate\<close> tells
  apart from an empty one.\<close>

record LabelSelectorRequirement =
  Key :: string
  Operator :: string
  Values :: "string list"

record LabelSelector =
  MatchLabels :: "labels option"
  MatchExpressions :: "LabelSelectorRequirement list option"

record CustomWeight =
  Weight :: int
  Selector :: LabelSelector

record Routing =
  Strategy :: string
  DefaultGeoCode :: string
  DefaultWeight :: int
  CustomWeights :: "CustomWeight list"
  ClusterID :: string

text \<open>\<^verbatim>\<open>externaldns.Endpoint\<close>. \<open>ProviderSpecific\<close> is a slice of (name, value) pairs.\<close>

record Endpoint =
  DNSName :: string
  Targets :: "string list"
  RecordType :: string
  SetIdentifier :: string
  RecordTTL :: int
  EndpointLabels :: labels
  ProviderSpecific :: "(string \<times> string) list"

type_synonym heap = "Endpoint list"

text \<open>\<^verbatim>\<open>gatewayapiv1.GatewayStatusAddress\<close>: \<open>Type\<close> is a pointer to a string.\<close>

record GatewayStatusAddress =
  Type :: "string option"
  Value :: string

text \<open>The fields of \<^verbatim>\<open>gatewayapiv1.Gateway\<close> that the code reads.\<close>

record Gateway =
  Name :: string
  Namespace :: string
  Labels :: labels
  Addresses :: "GatewayStatusAddress list"

record Listener =
  Hostname :: "string option"

text \<open>\<^verbatim>\<open>DNSRecord.Spec.Endpoints\<close>: a slice of pointers, each nil or the address of a cell.\<close>

record DNSRecord =
  Endpoints :: "nat option list"

text \<open>The messages of the errors that the code builds with \<^verbatim>\<open>fmt.Errorf\<close>.\<close>

datatype error =
    ErrListenerHostnameEmpty
  | ErrRequireCurrentEndpoints
  | ErrClusterIDRequired
  | ErrDefaultWeightRequired
  | ErrDefaultGeocodeRequired
  | ErrCustomWeightZero
  | ErrCustomWeightSelector
  | ErrUnknownRoutingStrategy string

fun Error :: "error \<Rightarrow> string" where
  "Error ErrListenerHostnameEmpty = ''listener hostname is empty''"
| "Error ErrRequireCurrentEndpoints = ''require current endpoints''"
| "Error ErrClusterIDRequired = ''cluster ID is required''"
| "Error ErrDefaultWeightRequired = ''default weight is required''"
| "Error ErrDefaultGeocodeRequired = ''default geocode is required''"
| "Error ErrCustomWeightZero = ''custom weight cannot be zero''"
| "Error ErrCustomWeightSelector = ''custom weight must define non-empty selector''"
| "Error (ErrUnknownRoutingStrategy s) = ''unknown routing strategy'' @ '' : '' @ s"

subsection \<open>Constants\<close>

definition SimpleRoutingStrategy :: string where
  "SimpleRoutingStrategy = ''simple''"

definition LoadBalancedRoutingStrategy :: string where
  "LoadBalancedRoutingStrategy = ''loadbalanced''"

definition DefaultTTL :: int where
  "DefaultTTL = 60"

definition DefaultCnameTTL :: int where
  "DefaultCnameTTL = 300"

definition ClusterIDLength :: nat where
  "ClusterIDLength = 6"

definition LabelLBAttributeGeoCode :: string where
  "LabelLBAttributeGeoCode = ''kuadrant.io/lb-attribute-geo-code''"

text \<open>Modelled from the spec: the constants \<^verbatim>\<open>DefaultGeo\<close>, \<^verbatim>\<open>WildcardGeo\<close>,
  \<^verbatim>\<open>ProviderSpecificWeight\<close>, \<^verbatim>\<open>ProviderSpecificGeoCode\<close>, \<^verbatim>\<open>ARecordType\<close>,
  \<^verbatim>\<open>CNAMERecordType\<close> and \<^verbatim>\<open>gatewayapiv1.IPAddressType\<close> are declared outside the
  source file. Their values are the ones the unit tests of the file expect in the
  records (\<^verbatim>\<open>"default.klb.test."\<close>, \<^verbatim>\<open>"*"\<close>, \<^verbatim>\<open>"weight"\<close>, \<^verbatim>\<open>"geo-code"\<close>, \<^verbatim>\<open>"A"\<close>,
  \<^verbatim>\<open>"CNAME"\<close>); the address type is the one of the gateway API.\<close>

definition DefaultGeo :: string where
  "DefaultGeo = ''default''"

definition WildcardGeo :: string where
  "WildcardGeo = ''*''"

definition ProviderSpecificWeight :: string where
  "ProviderSpecificWeight = ''weight''"

definition ProviderSpecificGeoCode :: string where
  "ProviderSpecificGeoCode = ''geo-code''"

definition ARecordType :: string where
  "ARecordType = ''A''"

definition CNAMERecordType :: string where
  "CNAMERecordType = ''CNAME''"

definition IPAddressType :: string where
  "IPAddressType = ''IPAddress''"

subsection \<open>Library functions the code calls\<close>

text \<open>Four library functions are parameters of the model, so that every theorem holds
  for whatever they compute: \<^verbatim>\<open>strings.ToLower\<close> (Unicode aware),
  \<^verbatim>\<open>hash.ToBase36HashLen\<close> (a hash, in a package outside the source file),
  \<^verbatim>\<open>v1.LabelSelectorAsSelector\<close> followed by \<^verbatim>\<open>Matches\<close> (\<open>None\<close> when the selector does
  not compile, otherwise the predicate on label sets), and the pattern-defeating quicksort
  that \<^verbatim>\<open>sort.Slice\<close> runs on a slice of more than twelve elements. The quicksort compares
  keys only, so the order it produces is a function of the keys in slice order:
  \<open>Pdqsort\<close> maps them to the positions of the slice in the order in which their elements
  come out.\<close>

record Lib =
  ToLower :: "string \<Rightarrow> string"
  ToBase36HashLen :: "string \<Rightarrow> nat \<Rightarrow> string"
  LabelSelectorAsSelector :: "LabelSelector \<Rightarrow> (labels \<Rightarrow> bool) option"
  Pdqsort :: "string list \<Rightarrow> nat list"

text \<open>\<^verbatim>\<open>strconv.Itoa\<close>: the decimal digits, with a minus sign for a negative number.\<close>

fun digits :: "nat \<Rightarrow> string" where
  "digits n =
     (if n < 10 then [''0123456789'' ! n]
      else digits (n div 10) @ [''0123456789'' ! (n mod 10)])"

declare digits.simps [simp del]

definition Itoa :: "int \<Rightarrow> string" where
  "Itoa i = (if i < 0 then CHR ''-'' # digits (nat (- i)) else digits (nat i))"

text \<open>\<^verbatim>\<open>strings.HasPrefix(host, "*")\<close>.\<close>

fun isWildCardHost :: "string \<Rightarrow> bool" where
  "isWildCardHost [] = False"
| "isWildCardHost (c # cs) = (c = CHR ''*'')"

text \<open>\<^verbatim>\<open>strings.Replace(hostname, "*.", "", -1)\<close>: every occurrence of \<^verbatim>\<open>"*."\<close>, found from
  left to right, is removed.\<close>

fun removeAllWildcards :: "string \<Rightarrow> string" where
  "removeAllWildcards (a # b # cs) =
     (if a = CHR ''*'' \<and> b = CHR ''.'' then removeAllWildcards cs
      else a # removeAllWildcards (b # cs))"
| "removeAllWildcards cs = cs"

text \<open>Modelled from the spec: \<^verbatim>\<open>Endpoint.SetProviderSpecificProperty\<close> belongs to the
  external-dns library, outside the source file. It overwrites the value of the first
  property of that name and appends the property when there is none; on a record without
  properties it yields the one property, which is what the unit tests of the file expect.\<close>

fun setProperty :: "string \<Rightarrow> string \<Rightarrow> (string \<times> string) list \<Rightarrow> (string \<times> string) list" where
  "setProperty k v [] = [(k, v)]"
| "setProperty k v ((n, w) # ps) =
     (if n = k then (k, v) # ps else (n, w) # setProperty k v ps)"

definition SetProviderSpecificProperty :: "nat \<Rightarrow> string \<Rightarrow> string \<Rightarrow> heap \<Rightarrow> heap" where
  "SetProviderSpecificProperty endpoint k v h =
     h[endpoint := (h ! endpoint)\<lparr>ProviderSpecific := setProperty k v (ProviderSpecific (h ! endpoint))\<rparr>]"

subsection \<open>Routing: validation and weights\<close>

text \<open>\<^verbatim>\<open>len\<close> of a map that may be nil.\<close>

definition lenLabels :: "labels option \<Rightarrow> nat" where
  "lenLabels m = (case m of None \<Rightarrow> 0 | Some entries \<Rightarrow> length entries)"

text \<open>The loop of \<^verbatim>\<open>Validate\<close> over the custom weights (a nil slice has no iteration,
  so the guard \<^verbatim>\<open>r.CustomWeights != nil\<close> changes nothing).\<close>

fun validateCustomWeights :: "CustomWeight list \<Rightarrow> error option" where
  "validateCustomWeights [] = None"
| "validateCustomWeights (customWeight # rest) =
     (if Weight customWeight = 0 then Some ErrCustomWeightZero
      else if MatchLabels (Selector customWeight) = None
              \<and> lenLabels (MatchLabels (Selector customWeight)) = 0
              \<and> MatchExpressions (Selector customWeight) = None
           then Some ErrCustomWeightSelector
      else validateCustomWeights rest)"

definition Validate :: "Routing \<Rightarrow> error option" where
  "Validate r =
     (if Strategy r = SimpleRoutingStrategy then None
      else if ClusterID r = [] then Some ErrClusterIDRequired
      else if DefaultWeight r = 0 then Some ErrDefaultWeightRequired
      else if DefaultGeoCode r = [] then Some ErrDefaultGeocodeRequired
      else validateCustomWeights (CustomWeights r))"

text \<open>The loop of \<^verbatim>\<open>getWeight\<close>: \<open>weight\<close> is the default weight on entry.\<close>

fun getWeightLoop :: "Lib \<Rightarrow> labels \<Rightarrow> int \<Rightarrow> CustomWeight list \<Rightarrow> int" where
  "getWeightLoop L ls weight [] = weight"
| "getWeightLoop L ls weight (customWeight # rest) =
     (case LabelSelectorAsSelector L (Selector customWeight) of
        None \<Rightarrow> weight
      | Some selector \<Rightarrow>
          if selector ls then Weight customWeight
          else getWeightLoop L ls weight rest)"

definition getWeight :: "Lib \<Rightarrow> Routing \<Rightarrow> Gateway \<Rightarrow> int" where
  "getWeight L r gateway = getWeightLoop L (Labels gateway) (DefaultWeight r) (CustomWeights r)"

subsection \<open>Records: identity key and create-or-update\<close>

definition getSetID :: "Endpoint \<Rightarrow> string" where
  "getSetID endpoint = DNSName endpoint @ SetIdentifier endpoint"

text \<open>The zero value \<^verbatim>\<open>externaldns.Endpoint{}\<close>.\<close>

definition zeroEndpoint :: Endpoint where
  "zeroEndpoint =
     \<lparr>DNSName = [], Targets = [], RecordType = [], SetIdentifier = [], RecordTTL = 0,
      EndpointLabels = [], ProviderSpecific = []\<rparr>"

text \<open>\<open>currentEndpoints\<close> maps an identity key to the pointer stored under it. The result
  is the pointer returned and the heap after the writes.\<close>

definition createOrUpdateEndpoint ::
  "string \<Rightarrow> string list \<Rightarrow> string \<Rightarrow> string \<Rightarrow> int \<Rightarrow> (string \<rightharpoonup> nat) \<Rightarrow> heap \<Rightarrow> nat \<times> heap" where
  "createOrUpdateEndpoint dnsName targets recordType setIdentifier recordTTL currentEndpoints h =
     (let endpointID = dnsName @ setIdentifier;
          (endpoint, h1) =
            (case currentEndpoints endpointID of
               Some p \<Rightarrow> (p, h)
             | None \<Rightarrow>
                 (length h,
                  h @ [if setIdentifier \<noteq> [] then zeroEndpoint\<lparr>SetIdentifier := setIdentifier\<rparr>
                       else zeroEndpoint]))
      in (endpoint,
          h1[endpoint := (h1 ! endpoint)\<lparr>DNSName := dnsName, RecordType := recordType,
                                          Targets := targets, RecordTTL := recordTTL\<rparr>]))"

subsection \<open>The simple strategy\<close>

text \<open>The loop over \<^verbatim>\<open>gateway.Status.Addresses\<close>, which both strategies run: it appends
  each value to \<open>ipValues\<close> or to \<open>hostValues\<close>. \<open>None\<close> is the panic of \<^verbatim>\<open>*gwa.Type\<close>
  on a nil pointer.\<close>

fun addressLoop ::
  "GatewayStatusAddress list \<Rightarrow> string list \<Rightarrow> string list \<Rightarrow> (string list \<times> string list) option" where
  "addressLoop [] ipValues hostValues = Some (ipValues, hostValues)"
| "addressLoop (gwa # rest) ipValues hostValues =
     (case Type gwa of
        None \<Rightarrow> None
      | Some t \<Rightarrow>
          if t = IPAddressType then addressLoop rest (ipValues @ [Value gwa]) hostValues
          else addressLoop rest ipValues (hostValues @ [Value gwa]))"

text \<open>The result is \<open>None\<close> when the code panics (a nil gateway, a nil address type),
  otherwise the slice of pointers and the heap after the writes.\<close>

definition getSimpleEndpoints ::
  "Gateway option \<Rightarrow> string \<Rightarrow> (string \<rightharpoonup> nat) \<Rightarrow> heap \<Rightarrow> (nat list \<times> heap) option" where
  "getSimpleEndpoints gateway hostname currentEndpoints h =
     (case gateway of
        None \<Rightarrow> None
      | Some gw \<Rightarrow>
          (case addressLoop (Addresses gw) [] [] of
             None \<Rightarrow> None
           | Some (ipValues, hostValues) \<Rightarrow>
               (let (endpoints1, h1) =
                      (if length ipValues > 0
                       then (let (endpoint, h') =
                                   createOrUpdateEndpoint hostname ipValues ARecordType []
                                     DefaultTTL currentEndpoints h
                             in ([endpoint], h'))
                       else ([], h));
                    (endpoints2, h2) =
                      (if length hostValues > 0
                       then (let (endpoint, h') =
                                   createOrUpdateEndpoint hostname hostValues CNAMERecordType []
                                     DefaultTTL currentEndpoints h1
                             in (endpoints1 @ [endpoint], h'))
                       else (endpoints1, h1))
                in Some (endpoints2, h2))))"

subsection \<open>The load-balanced strategy\<close>

definition getShortCode :: "Lib \<Rightarrow> string \<Rightarrow> string" where
  "getShortCode L name = ToBase36HashLen L name ClusterIDLength"

definition getGeoFromLabel :: "Gateway \<Rightarrow> string" where
  "getGeoFromLabel gateway =
     (case map_of (Labels gateway) LabelLBAttributeGeoCode of
        Some geoCode \<Rightarrow> geoCode
      | None \<Rightarrow> DefaultGeo)"

text \<open>The names that \<^verbatim>\<open>getLoadBalancedEndpoints\<close> computes (\<^verbatim>\<open>cnameHost\<close>, \<^verbatim>\<open>lbName\<close>,
  \<^verbatim>\<open>geoLbName\<close>, \<^verbatim>\<open>clusterLbName\<close>).\<close>

definition cnameHostOf :: "string \<Rightarrow> string" where
  "cnameHostOf hostname =
     (if isWildCardHost hostname then removeAllWildcards hostname else hostname)"

definition lbNameOf :: "Lib \<Rightarrow> string \<Rightarrow> string" where
  "lbNameOf L hostname = ToLower L (''klb.'' @ cnameHostOf hostname)"

definition geoLbNameOf :: "Lib \<Rightarrow> Gateway \<Rightarrow> string \<Rightarrow> string" where
  "geoLbNameOf L gateway hostname =
     ToLower L (getGeoFromLabel gateway @ ''.'' @ lbNameOf L hostname)"

definition clusterLbNameOf :: "Lib \<Rightarrow> Gateway \<Rightarrow> Routing \<Rightarrow> string \<Rightarrow> string" where
  "clusterLbNameOf L gateway routing hostname =
     ToLower L (getShortCode L (ClusterID routing) @ ''-''
                @ getShortCode L (Name gateway @ ''-'' @ Namespace gateway) @ ''.''
                @ lbNameOf L hostname)"

text \<open>The loop over \<open>hostValues\<close>: one weighted alias record for each value. \<open>weight\<close> is
  \<^verbatim>\<open>strconv.Itoa(routing.getWeight(gateway))\<close>, the same in every iteration.\<close>

fun hostValuesLoop ::
  "string \<Rightarrow> string \<Rightarrow> (string \<rightharpoonup> nat) \<Rightarrow> string list \<Rightarrow> nat list \<Rightarrow> heap \<Rightarrow> nat list \<times> heap" where
  "hostValuesLoop geoLbName weight currentEndpoints [] endpoints h = (endpoints, h)"
| "hostValuesLoop geoLbName weight currentEndpoints (hostValue # rest) endpoints h =
     (let (endpoint, h1) =
            createOrUpdateEndpoint geoLbName [hostValue] CNAMERecordType hostValue DefaultTTL
              currentEndpoints h;
          h2 = SetProviderSpecificProperty endpoint ProviderSpecificWeight weight h1
      in hostValuesLoop geoLbName weight currentEndpoints rest (endpoints @ [endpoint]) h2)"

text \<open>Lines 201 to 212: the address record of the cluster and the weighted alias
  records.\<close>

definition geoLayer ::
  "Lib \<Rightarrow> Gateway \<Rightarrow> Routing \<Rightarrow> string \<Rightarrow> (string \<rightharpoonup> nat) \<Rightarrow> string list \<Rightarrow> string list \<Rightarrow> heap
     \<Rightarrow> nat list \<times> heap" where
  "geoLayer L gateway routing hostname currentEndpoints ipValues hostValues h =
     (let geoLbName = geoLbNameOf L gateway hostname;
          (endpoints1, hostValues1, h1) =
            (if length ipValues > 0
             then (let clusterLbName = clusterLbNameOf L gateway routing hostname;
                       (endpoint, h') =
                         createOrUpdateEndpoint clusterLbName ipValues ARecordType []
                           DefaultTTL currentEndpoints h
                   in ([endpoint], hostValues @ [clusterLbName], h'))
             else ([], hostValues, h))
      in hostValuesLoop geoLbName (Itoa (getWeight L routing gateway)) currentEndpoints
           hostValues1 endpoints1 h1)"

text \<open>Lines 214 to 241: nothing when the slice is empty, otherwise the alias record of
  \<open>lbName\<close> for the geo code, the one for the default geo when the geo code is the
  default of the routing, and the alias record of the hostname.\<close>

definition lbLayer ::
  "Lib \<Rightarrow> Gateway \<Rightarrow> Routing \<Rightarrow> string \<Rightarrow> (string \<rightharpoonup> nat) \<Rightarrow> nat list \<Rightarrow> heap \<Rightarrow> nat list \<times> heap" where
  "lbLayer L gateway routing hostname currentEndpoints endpoints h =
     (if length endpoints = 0 then (endpoints, h)
      else
        (let lbName = lbNameOf L hostname;
             geoCode = getGeoFromLabel gateway;
             geoLbName = geoLbNameOf L gateway hostname;
             (endpoint1, h1) =
               createOrUpdateEndpoint lbName [geoLbName] CNAMERecordType geoCode
                 DefaultCnameTTL currentEndpoints h;
             h2 = (if geoCode \<noteq> DefaultGeo
                   then SetProviderSpecificProperty endpoint1 ProviderSpecificGeoCode geoCode h1
                   else h1);
             endpoints1 = endpoints @ [endpoint1];
             (endpoints2, h3) =
               (if geoCode = DefaultGeoCode routing
                then (let (endpoint, h') =
                            createOrUpdateEndpoint lbName [geoLbName] CNAMERecordType ''default''
                              DefaultCnameTTL currentEndpoints h2
                      in (endpoints1 @ [endpoint],
                          SetProviderSpecificProperty endpoint ProviderSpecificGeoCode WildcardGeo h'))
                else (endpoints1, h2))
         in (if length endpoints2 > 0
             then (let (endpoint, h') =
                         createOrUpdateEndpoint hostname [lbName] CNAMERecordType []
                           DefaultCnameTTL currentEndpoints h3
                   in (endpoints2 @ [endpoint], h'))
             else (endpoints2, h3))))"

definition getLoadBalancedEndpoints ::
  "Lib \<Rightarrow> Gateway option \<Rightarrow> Routing \<Rightarrow> string \<Rightarrow> (string \<rightharpoonup> nat) \<Rightarrow> heap
     \<Rightarrow> (nat list \<times> heap) option" where
  "getLoadBalancedEndpoints L gateway routing hostname currentEndpoints h =
     (case gateway of
        None \<Rightarrow> None
      | Some gw \<Rightarrow>
          (case addressLoop (Addresses gw) [] [] of
             None \<Rightarrow> None
           | Some (ipValues, hostValues) \<Rightarrow>
               (let (endpoints, h1) =
                      geoLayer L gw routing hostname currentEndpoints ipValues hostValues h
                in Some (lbLayer L gw routing hostname currentEndpoints endpoints h1))))"

subsection \<open>GenerateEndpoints\<close>

text \<open>The loop that fills \<open>currentEndpoints\<close>: a later record replaces an earlier one with
  the same key. \<open>None\<close> is the panic of \<^verbatim>\<open>getSetID\<close> on a nil pointer (a pointer to no
  cell, which Go cannot build, is treated alike).\<close>

fun currentEndpointsLoop ::
  "heap \<Rightarrow> nat option list \<Rightarrow> (string \<rightharpoonup> nat) \<Rightarrow> (string \<rightharpoonup> nat) option" where
  "currentEndpointsLoop h [] currentEndpoints = Some currentEndpoints"
| "currentEndpointsLoop h (endpoint # rest) currentEndpoints =
     (case endpoint of
        None \<Rightarrow> None
      | Some p \<Rightarrow>
          if p < length h
          then currentEndpointsLoop h rest (currentEndpoints(getSetID (h ! p) \<mapsto> p))
          else None)"

text \<open>\<^verbatim>\<open>sort.Slice\<close> with the comparison of the keys. Go sorts a slice of at most
  twelve elements by insertion, moving each element left while its key is smaller than
  the one before it, so that records with equal keys keep their order.\<close>

fun insertByKey :: "heap \<Rightarrow> nat \<Rightarrow> nat list \<Rightarrow> nat list" where
  "insertByKey h p [] = [p]"
| "insertByKey h p (q # qs) =
     (if getSetID (h ! p) < getSetID (h ! q) then p # q # qs
      else q # insertByKey h p qs)"

definition insertionSort :: "heap \<Rightarrow> nat list \<Rightarrow> nat list" where
  "insertionSort h endpoints =
     foldl (\<lambda>sorted_part p. insertByKey h p sorted_part) [] endpoints"

text \<open>A longer slice goes through the quicksort of the library, which is not stable: the
  order of records with equal keys is whatever \<open>Pdqsort\<close> makes it. All that the model
  takes for granted of the quicksort is that it sorts: \<open>sortsKeys\<close> says that an order
  lists every position of the slice once and that the keys ascend along it. An order
  that does not sort is not the quicksort of Go; the model then orders by insertion, which
  keeps \<open>sortSlice\<close> a sort for every value of the parameter.\<close>

definition sortsKeys :: "string list \<Rightarrow> nat list \<Rightarrow> bool" where
  "sortsKeys keys order \<longleftrightarrow>
     length order = length keys \<and> distinct order \<and> list_all (\<lambda>i. i < length keys) order
     \<and> sorted (map (\<lambda>i. keys ! i) order)"

definition sortSlice :: "Lib \<Rightarrow> heap \<Rightarrow> nat list \<Rightarrow> nat list" where
  "sortSlice L h endpoints =
     (if length endpoints \<le> 12 then insertionSort h endpoints
      else let keys = map (\<lambda>p. getSetID (h ! p)) endpoints; order = Pdqsort L keys
           in if sortsKeys keys order then map (\<lambda>i. endpoints ! i) order
              else insertionSort h endpoints)"

text \<open>What a call does: it panics, or it returns the slice, the error and the heap.\<close>

datatype outcome = Panic | Return "nat list" "error option" heap

definition sortAndReturn :: "Lib \<Rightarrow> (nat list \<times> heap) option \<Rightarrow> outcome" where
  "sortAndReturn L res =
     (case res of
        None \<Rightarrow> Panic
      | Some (endpoints, h) \<Rightarrow> Return (sortSlice L h endpoints) None h)"

definition GenerateEndpoints ::
  "Lib \<Rightarrow> Gateway option \<Rightarrow> DNSRecord option \<Rightarrow> Listener \<Rightarrow> Routing option \<Rightarrow> heap \<Rightarrow> outcome" where
  "GenerateEndpoints L gateway dnsRecord listener routing h =
     (case Hostname listener of
        None \<Rightarrow> Return [] (Some ErrListenerHostnameEmpty) h
      | Some gwListenerHost \<Rightarrow>
          (case dnsRecord of
             None \<Rightarrow> Return [] (Some ErrRequireCurrentEndpoints) h
           | Some record \<Rightarrow>
               (case currentEndpointsLoop h (Endpoints record) Map.empty of
                  None \<Rightarrow> Panic
                | Some currentEndpoints \<Rightarrow>
                    (case routing of
                       None \<Rightarrow> Panic
                     | Some r \<Rightarrow>
                         (case Validate r of
                            Some err \<Rightarrow> Return [] (Some err) h
                          | None \<Rightarrow>
                              if Strategy r = SimpleRoutingStrategy
                              then sortAndReturn L
                                     (getSimpleEndpoints gateway gwListenerHost currentEndpoints h)
                              else if Strategy r = LoadBalancedRoutingStrategy
                              then sortAndReturn L
                                     (getLoadBalancedEndpoints L gateway r gwListenerHost
                                        currentEndpoints h)
                              else Return [] (Some (ErrUnknownRoutingStrategy (Strategy r))) h)))))"

subsection \<open>Notions used in the properties\<close>

text \<open>A selector is empty when both its match-labels and its match-expressions are
  absent.\<close>

definition emptySelector :: "LabelSelector \<Rightarrow> bool" where
  "emptySelector s \<longleftrightarrow> MatchLabels s = None \<and> MatchExpressions s = None"

text \<open>An instance of the library functions, for evaluating the model on ASCII examples:
  lower-casing of the ASCII letters, the first characters of the name for its hash,
  selectors that compare labels for equality (a selector with a match-expression does not
  compile), and a sort that puts equal keys in the reverse of their order in the slice.
  No example below has more than twelve records, so none is sorted by it.\<close>

definition lowerChar :: "char \<Rightarrow> char" where
  "lowerChar c =
     (case map_of (zip ''ABCDEFGHIJKLMNOPQRSTUVWXYZ'' ''abcdefghijklmnopqrstuvwxyz'') c of
        Some d \<Rightarrow> d
      | None \<Rightarrow> c)"

definition sampleSelector :: "LabelSelector \<Rightarrow> (labels \<Rightarrow> bool) option" where
  "sampleSelector s =
     (case MatchExpressions s of
        Some (requirement # rest) \<Rightarrow> None
      | _ \<Rightarrow>
          Some (\<lambda>ls. list_all (\<lambda>(k, v). map_of ls k = Some v)
                        (case MatchLabels s of None \<Rightarrow> [] | Some entries \<Rightarrow> entries)))"

definition sampleLib :: Lib where
  "sampleLib =
     \<lparr>ToLower = map lowerChar, ToBase36HashLen = (\<lambda>name n. take n name),
      LabelSelectorAsSelector = sampleSelector,
      Pdqsort = (\<lambda>keys. sort_key (\<lambda>i. keys ! i) (rev [0 ..< length keys]))\<rparr>"

text \<open>Sample routings, selectors and gateways.\<close>

definition sampleRouting :: Routing where
  "sampleRouting =
     \<lparr>Strategy = LoadBalancedRoutingStrategy, DefaultGeoCode = ''IE'', DefaultWeight = 120,
      CustomWeights = [], ClusterID = ''c1''\<rparr>"

definition selectorFoo :: LabelSelector where
  "selectorFoo = \<lparr>MatchLabels = Some [(''tier'', ''FOO'')], MatchExpressions = None\<rparr>"

definition selectorBar :: LabelSelector where
  "selectorBar = \<lparr>MatchLabels = Some [(''tier'', ''BAR'')], MatchExpressions = None\<rparr>"

definition selectorMalformed :: LabelSelector where
  "selectorMalformed =
     \<lparr>MatchLabels = None,
      MatchExpressions = Some [\<lparr>Key = ''tier'', Operator = ''Near'', Values = []\<rparr>]\<rparr>"

definition selectorAbsent :: LabelSelector where
  "selectorAbsent = \<lparr>MatchLabels = None, MatchExpressions = None\<rparr>"

definition sampleGateway :: Gateway where
  "sampleGateway =
     \<lparr>Name = ''gw'', Namespace = ''ns'',
      Labels = [(LabelLBAttributeGeoCode, ''IE''), (''tier'', ''FOO'')],
      Addresses = [\<lparr>Type = Some IPAddressType, Value = ''192.0.2.1''\<rparr>,
                   \<lparr>Type = Some IPAddressType, Value = ''192.0.2.2''\<rparr>]\<rparr>"

subsection \<open>Synthesis as a list of emissions\<close>

text \<open>Every record that a strategy produces comes from one call of
  \<open>createOrUpdateEndpoint\<close>, followed or not by one call of
  \<open>SetProviderSpecificProperty\<close> on the record. An emission holds the arguments of the two
  calls; \<open>emitAll\<close> runs a list of emissions in order. The lemmas \<open>getSimpleEndpoints_emitAll\<close>
  and \<open>getLoadBalancedEndpoints_emitAll\<close> show that the two strategies are such runs.\<close>

record emission =
  eName :: string
  eTargets :: "string list"
  eType :: string
  eSetID :: string
  eTTL :: int
  eProperty :: "(string \<times> string) option"

definition eKey :: "emission \<Rightarrow> string" where
  "eKey e = eName e @ eSetID e"

definition emit :: "(string \<rightharpoonup> nat) \<Rightarrow> emission \<Rightarrow> heap \<Rightarrow> nat \<times> heap" where
  "emit currentEndpoints e h =
     (let (endpoint, h1) =
            createOrUpdateEndpoint (eName e) (eTargets e) (eType e) (eSetID e) (eTTL e)
              currentEndpoints h
      in (endpoint,
          case eProperty e of
            None \<Rightarrow> h1
          | Some (k, v) \<Rightarrow> SetProviderSpecificProperty endpoint k v h1))"

fun emitAll :: "(string \<rightharpoonup> nat) \<Rightarrow> emission list \<Rightarrow> nat list \<Rightarrow> heap \<Rightarrow> nat list \<times> heap" where
  "emitAll currentEndpoints [] endpoints h = (endpoints, h)"
| "emitAll currentEndpoints (e # es) endpoints h =
     (let (endpoint, h1) = emit currentEndpoints e h
      in emitAll currentEndpoints es (endpoints @ [endpoint]) h1)"

text \<open>The record that an emission leaves in a fresh cell.\<close>

definition freshRecord :: "emission \<Rightarrow> Endpoint" where
  "freshRecord e =
     \<lparr>DNSName = eName e, Targets = eTargets e, RecordType = eType e, SetIdentifier = eSetID e,
      RecordTTL = eTTL e, EndpointLabels = [],
      ProviderSpecific = (case eProperty e of None \<Rightarrow> [] | Some (k, v) \<Rightarrow> [(k, v)])\<rparr>"

definition simpleEmissions :: "string \<Rightarrow> string list \<Rightarrow> string list \<Rightarrow> emission list" where
  "simpleEmissions hostname ipValues hostValues =
     (if ipValues \<noteq> []
      then [\<lparr>eName = hostname, eTargets = ipValues, eType = ARecordType, eSetID = [],
             eTTL = DefaultTTL, eProperty = None\<rparr>]
      else [])
     @ (if hostValues \<noteq> []
        then [\<lparr>eName = hostname, eTargets = hostValues, eType = CNAMERecordType, eSetID = [],
               eTTL = DefaultTTL, eProperty = None\<rparr>]
        else [])"

definition weightEmission :: "Lib \<Rightarrow> Gateway \<Rightarrow> Routing \<Rightarrow> string \<Rightarrow> string \<Rightarrow> emission" where
  "weightEmission L gateway routing hostname hostValue =
     \<lparr>eName = geoLbNameOf L gateway hostname, eTargets = [hostValue], eType = CNAMERecordType,
      eSetID = hostValue, eTTL = DefaultTTL,
      eProperty = Some (ProviderSpecificWeight, Itoa (getWeight L routing gateway))\<rparr>"

definition geoEmissions ::
  "Lib \<Rightarrow> Gateway \<Rightarrow> Routing \<Rightarrow> string \<Rightarrow> string list \<Rightarrow> string list \<Rightarrow> emission list" where
  "geoEmissions L gateway routing hostname ipValues hostValues =
     (if ipValues \<noteq> []
      then \<lparr>eName = clusterLbNameOf L gateway routing hostname, eTargets = ipValues,
             eType = ARecordType, eSetID = [], eTTL = DefaultTTL, eProperty = None\<rparr>
           # map (weightEmission L gateway routing hostname)
               (hostValues @ [clusterLbNameOf L gateway routing hostname])
      else map (weightEmission L gateway routing hostname) hostValues)"

definition lbEmissions :: "Lib \<Rightarrow> Gateway \<Rightarrow> Routing \<Rightarrow> string \<Rightarrow> emission list" where
  "lbEmissions L gateway routing hostname =
     [\<lparr>eName = lbNameOf L hostname, eTargets = [geoLbNameOf L gateway hostname],
       eType = CNAMERecordType, eSetID = getGeoFromLabel gateway, eTTL = DefaultCnameTTL,
       eProperty = (if getGeoFromLabel gateway \<noteq> DefaultGeo
                    then Some (ProviderSpecificGeoCode, getGeoFromLabel gateway) else None)\<rparr>]
     @ (if getGeoFromLabel gateway = DefaultGeoCode routing
        then [\<lparr>eName = lbNameOf L hostname, eTargets = [geoLbNameOf L gateway hostname],
               eType = CNAMERecordType, eSetID = ''default'', eTTL = DefaultCnameTTL,
               eProperty = Some (ProviderSpecificGeoCode, WildcardGeo)\<rparr>]
        else [])
     @ [\<lparr>eName = hostname, eTargets = [lbNameOf L hostname], eType = CNAMERecordType,
         eSetID = [], eTTL = DefaultCnameTTL, eProperty = None\<rparr>]"

definition loadBalancedEmissions ::
  "Lib \<Rightarrow> Gateway \<Rightarrow> Routing \<Rightarrow> string \<Rightarrow> string list \<Rightarrow> string list \<Rightarrow> emission list" where
  "loadBalancedEmissions L gateway routing hostname ipValues hostValues =
     (if ipValues = [] \<and> hostValues = [] then []
      else geoEmissions L gateway routing hostname ipValues hostValues
           @ lbEmissions L gateway routing hostname)"

text \<open>The fields of a record that no emission writes: the set identifier, the labels and
  the provider-specific properties other than those named in \<open>K\<close>.\<close>

definition otherProperties :: "string set \<Rightarrow> Endpoint \<Rightarrow> (string \<times> string) list" where
  "otherProperties K e = filter (\<lambda>(n, v). n \<notin> K) (ProviderSpecific e)"

definition sameOtherFields :: "string set \<Rightarrow> Endpoint \<Rightarrow> Endpoint \<Rightarrow> bool" where
  "sameOtherFields K a b \<longleftrightarrow>
     SetIdentifier b = SetIdentifier a \<and> EndpointLabels b = EndpointLabels a
     \<and> otherProperties K b = otherProperties K a"

text \<open>The pointers of \<open>currentEndpoints\<close> are cells below \<open>n\<close>, and the cells from \<open>n\<close> on
  hold records whose key is not in \<open>currentEndpoints\<close>.\<close>

definition heapInv :: "(string \<rightharpoonup> nat) \<Rightarrow> nat \<Rightarrow> heap \<Rightarrow> bool" where
  "heapInv currentEndpoints n h \<longleftrightarrow>
     n \<le> length h
     \<and> (\<forall>k p. currentEndpoints k = Some p \<longrightarrow> p < n)
     \<and> (\<forall>p. n \<le> p \<and> p < length h \<longrightarrow> currentEndpoints (getSetID (h ! p)) = None)"

text \<open>What an emission writes into a record that exists already.\<close>

definition written :: "emission \<Rightarrow> Endpoint \<Rightarrow> Endpoint" where
  "written e a =
     a\<lparr>DNSName := eName e, RecordType := eType e, Targets := eTargets e, RecordTTL := eTTL e,
       ProviderSpecific := (case eProperty e of
                              None \<Rightarrow> ProviderSpecific a
                            | Some (k, v) \<Rightarrow> setProperty k v (ProviderSpecific a))\<rparr>"

definition propertyIn :: "string set \<Rightarrow> emission \<Rightarrow> bool" where
  "propertyIn K e \<longleftrightarrow> (case eProperty e of None \<Rightarrow> True | Some (k, v) \<Rightarrow> k \<in> K)"

text \<open>The values of the addresses of type IP address, and of the other addresses.\<close>

definition ipValuesOf :: "GatewayStatusAddress list \<Rightarrow> string list" where
  "ipValuesOf addresses = map Value (filter (\<lambda>gwa. Type gwa = Some IPAddressType) addresses)"

definition hostValuesOf :: "GatewayStatusAddress list \<Rightarrow> string list" where
  "hostValuesOf addresses = map Value (filter (\<lambda>gwa. Type gwa \<noteq> Some IPAddressType) addresses)"

text \<open>The key of the record that a pointer leads to.\<close>

definition keyOf :: "heap \<Rightarrow> nat \<Rightarrow> string" where
  "keyOf h p = getSetID (h ! p)"

text \<open>The last pointer of the slice that leads to a record with the key \<open>k\<close>.\<close>

fun lastWithKey :: "heap \<Rightarrow> nat option list \<Rightarrow> string \<Rightarrow> nat option" where
  "lastWithKey h [] k = None"
| "lastWithKey h (endpoint # rest) k =
     (case lastWithKey h rest k of
        Some q \<Rightarrow> Some q
      | None \<Rightarrow>
          (case endpoint of
             None \<Rightarrow> None
           | Some q \<Rightarrow> if getSetID (h ! q) = k then Some q else None))"

text \<open>The emissions with the key \<open>k\<close>, in their order.\<close>

definition emissionsAt :: "emission list \<Rightarrow> string \<Rightarrow> emission list" where
  "emissionsAt es k = filter (\<lambda>e. eKey e = k) es"

text \<open>Every pointer of the slice leads to a cell: none is nil.\<close>

definition noNilPointer :: "heap \<Rightarrow> nat option list \<Rightarrow> bool" where
  "noNilPointer h pointers =
     list_all (\<lambda>x. case x of None \<Rightarrow> False | Some p \<Rightarrow> p < length h) pointers"

definition noNilType :: "Gateway \<Rightarrow> bool" where
  "noNilType gateway = list_all (\<lambda>gwa. Type gwa \<noteq> None) (Addresses gateway)"

text \<open>The emissions of a call, by strategy.\<close>

definition emissionsOf :: "Lib \<Rightarrow> Gateway \<Rightarrow> Routing \<Rightarrow> string \<Rightarrow> emission list" where
  "emissionsOf L gateway routing hostname =
     (if Strategy routing = SimpleRoutingStrategy
      then simpleEmissions hostname (ipValuesOf (Addresses gateway))
             (hostValuesOf (Addresses gateway))
      else loadBalancedEmissions L gateway routing hostname (ipValuesOf (Addresses gateway))
             (hostValuesOf (Addresses gateway)))"

text \<open>The inputs on which \<open>GenerateEndpoints\<close> dereferences a nil pointer: with a hostname
  and a DNS record given, a nil pointer among the previous records, a nil routing, or,
  once the routing is valid and its strategy known, a nil gateway or a nil address type.\<close>

definition dereferencesNil ::
  "Gateway option \<Rightarrow> DNSRecord option \<Rightarrow> Listener \<Rightarrow> Routing option \<Rightarrow> heap \<Rightarrow> bool" where
  "dereferencesNil gateway dnsRecord listener routing h =
     (case (Hostname listener, dnsRecord) of
        (Some host, Some record) \<Rightarrow>
          \<not> noNilPointer h (Endpoints record)
          \<or> (case routing of
                None \<Rightarrow> True
              | Some r \<Rightarrow>
                  Validate r = None
                  \<and> (Strategy r = SimpleRoutingStrategy \<or> Strategy r = LoadBalancedRoutingStrategy)
                  \<and> (case gateway of None \<Rightarrow> True | Some gw \<Rightarrow> \<not> noNilType gw))
      | _ \<Rightarrow> False)"

text \<open>The records that the sample gateway, the sample routing and the hostname
  \<open>*.Ex.io\<close> give when there is no previous record, in the order of their emission.\<close>

definition sampleRecords :: heap where
  "sampleRecords =
     [\<lparr>DNSName = ''c1-gw-ns.klb.ex.io'', Targets = [''192.0.2.1'', ''192.0.2.2''],
       RecordType = ''A'', SetIdentifier = [], RecordTTL = 60, EndpointLabels = [],
       ProviderSpecific = []\<rparr>,
      \<lparr>DNSName = ''ie.klb.ex.io'', Targets = [''c1-gw-ns.klb.ex.io''], RecordType = ''CNAME'',
       SetIdentifier = ''c1-gw-ns.klb.ex.io'', RecordTTL = 60, EndpointLabels = [],
       ProviderSpecific = [(''weight'', ''120'')]\<rparr>,
      \<lparr>DNSName = ''klb.ex.io'', Targets = [''ie.klb.ex.io''], RecordType = ''CNAME'',
       SetIdentifier = ''IE'', RecordTTL = 300, EndpointLabels = [],
       ProviderSpecific = [(''geo-code'', ''IE'')]\<rparr>,
      \<lparr>DNSName = ''klb.ex.io'', Targets = [''ie.klb.ex.io''], RecordType = ''CNAME'',
       SetIdentifier = ''default'', RecordTTL = 300, EndpointLabels = [],
       ProviderSpecific = [(''geo-code'', ''*'')]\<rparr>,
      \<lparr>DNSName = ''*.Ex.io'', Targets = [''klb.ex.io''], RecordType = ''CNAME'',
       SetIdentifier = [], RecordTTL = 300, EndpointLabels = [], ProviderSpecific = []\<rparr>]"

text \<open>A previous record of the hostname \<open>www.example.com\<close> that carries a property
  attached by a health check, and a gateway with one IP address.\<close>

definition checkedRecord :: Endpoint where
  "checkedRecord =
     \<lparr>DNSName = ''www.example.com'', Targets = [''192.0.2.9''], RecordType = ''A'',
      SetIdentifier = [], RecordTTL = 60, EndpointLabels = [],
      ProviderSpecific = [(''health-check-id'', ''42'')]\<rparr>"

definition oneIPGateway :: Gateway where
  "oneIPGateway =
     \<lparr>Name = ''gw'', Namespace = ''ns'', Labels = [],
      Addresses = [\<lparr>Type = Some IPAddressType, Value = ''192.0.2.1''\<rparr>]\<rparr>"

text \<open>The string \<open>*.\<close> occurs in a hostname.\<close>

fun hasWildcardLabel :: "string \<Rightarrow> bool" where
  "hasWildcardLabel (a # b # cs) = ((a = CHR ''*'' \<and> b = CHR ''.'') \<or> hasWildcardLabel (b # cs))"
| "hasWildcardLabel cs = False"

text \<open>A gateway without a geo label, with one address that is a hostname.\<close>

definition unlabelledGateway :: Gateway where
  "unlabelledGateway =
     \<lparr>Name = ''gw'', Namespace = ''ns'', Labels = [],
      Addresses = [\<lparr>Type = Some ''Hostname'', Value = ''elb.test''\<rparr>]\<rparr>"

text \<open>The sample gateway with one address that is a hostname, and two previous records
  with the key of the weighted record for that address. Their type, their targets and
  their TTL are not those that the synthesis gives the record, their weight is 100, and
  they carry a label and a property that the synthesis does not know.\<close>

definition hostGateway :: Gateway where
  "hostGateway = sampleGateway\<lparr>Addresses := [\<lparr>Type = Some ''Hostname'', Value = ''elb.test''\<rparr>]\<rparr>"

definition weightedRecord :: Endpoint where
  "weightedRecord =
     \<lparr>DNSName = ''ie.klb.ex.io'', Targets = [''old.test''], RecordType = ''A'',
      SetIdentifier = ''elb.test'', RecordTTL = 30, EndpointLabels = [(''owner'', ''team'')],
      ProviderSpecific = [(''health-check-id'', ''42''), (''weight'', ''100'')]\<rparr>"

definition shadowedRecord :: Endpoint where
  "shadowedRecord = weightedRecord\<lparr>Targets := [''older.test'']\<rparr>"

subsection \<open>Notions used for permuted inputs\<close>

text \<open>The record that a run of emissions leaves behind a pointer: for a fresh cell the
  record of its emission, for a previous record the result of all the writes of the
  emissions that reach it, in their order.\<close>

definition reusedValue :: "(string \<rightharpoonup> nat) \<Rightarrow> heap \<Rightarrow> emission list \<Rightarrow> nat \<Rightarrow> Endpoint" where
  "reusedValue currentEndpoints h es p =
     foldl (\<lambda>a e. written e a) (h ! p)
       (filter (\<lambda>e. currentEndpoints (eKey e) = Some p) es)"

definition valueOf :: "(string \<rightharpoonup> nat) \<Rightarrow> heap \<Rightarrow> emission list \<Rightarrow> emission \<Rightarrow> Endpoint" where
  "valueOf currentEndpoints h es e =
     (case currentEndpoints (eKey e) of
        None \<Rightarrow> freshRecord e
      | Some p \<Rightarrow> reusedValue currentEndpoints h es p)"

text \<open>Two records, or two emissions, that differ at most in the order of their
  targets.\<close>

definition sameButTargets :: "Endpoint \<Rightarrow> Endpoint \<Rightarrow> bool" where
  "sameButTargets a b \<longleftrightarrow>
     DNSName a = DNSName b \<and> RecordType a = RecordType b
     \<and> SetIdentifier a = SetIdentifier b \<and> RecordTTL a = RecordTTL b
     \<and> EndpointLabels a = EndpointLabels b \<and> ProviderSpecific a = ProviderSpecific b
     \<and> mset (Targets a) = mset (Targets b)"

definition sameEmission :: "emission \<Rightarrow> emission \<Rightarrow> bool" where
  "sameEmission e e' \<longleftrightarrow>
     eName e = eName e' \<and> eType e = eType e' \<and> eSetID e = eSetID e' \<and> eTTL e = eTTL e'
     \<and> eProperty e = eProperty e' \<and> mset (eTargets e) = mset (eTargets e')"

text \<open>The records that a call returns, in the order of the slice, and its error.\<close>

definition returnedRecords :: "outcome \<Rightarrow> Endpoint list" where
  "returnedRecords out =
     (case out of Panic \<Rightarrow> [] | Return endpoints err h \<Rightarrow> map (\<lambda>p. h ! p) endpoints)"

definition returnedError :: "outcome \<Rightarrow> error option" where
  "returnedError out = (case out of Panic \<Rightarrow> None | Return endpoints err h \<Rightarrow> err)"

text \<open>Two calls end alike: both panic or none does, they return the same error or none,
  and the records they return are the same, position by position, but for the order of
  the targets.\<close>

definition sameOutput :: "outcome \<Rightarrow> outcome \<Rightarrow> bool" where
  "sameOutput out out' \<longleftrightarrow>
     (out = Panic \<longleftrightarrow> out' = Panic)
     \<and> returnedError out = returnedError out'
     \<and> list_all2 sameButTargets (returnedRecords out) (returnedRecords out')"

text \<open>No previous record has the key of an emission and another set identifier.\<close>

definition noKeyCollision :: "heap \<Rightarrow> nat option list \<Rightarrow> emission list \<Rightarrow> bool" where
  "noKeyCollision h previous es =
     list_all (\<lambda>e. list_all (\<lambda>x. case x of
                                     None \<Rightarrow> True
                                   | Some q \<Rightarrow> getSetID (h ! q) = eKey e
                                              \<longrightarrow> SetIdentifier (h ! q) = eSetID e)
                           previous) es"

text \<open>The pointer that an emission returns: the one held under its key, or a new cell
  at or beyond \<open>m\<close> that holds the record of the emission.\<close>

definition pointsTo :: "(string \<rightharpoonup> nat) \<Rightarrow> nat \<Rightarrow> heap \<Rightarrow> emission \<Rightarrow> nat \<Rightarrow> bool" where
  "pointsTo currentEndpoints m h' e p \<longleftrightarrow>
     (case currentEndpoints (eKey e) of
        Some p' \<Rightarrow> p = p'
      | None \<Rightarrow> m \<le> p \<and> p < length h' \<and> h' ! p = freshRecord e)"

text \<open>The selector of a custom weight compiles and matches the labels of the gateway.\<close>

definition selectorMatches :: "Lib \<Rightarrow> Gateway \<Rightarrow> CustomWeight \<Rightarrow> bool" where
  "selectorMatches L gateway customWeight =
     (case LabelSelectorAsSelector L (Selector customWeight) of
        None \<Rightarrow> False
      | Some selector \<Rightarrow> selector (Labels gateway))"

text \<open>The sample gateway with its two addresses in the other order.\<close>

definition swappedGateway :: Gateway where
  "swappedGateway =
     sampleGateway\<lparr>Addresses := [\<lparr>Type = Some IPAddressType, Value = ''192.0.2.2''\<rparr>,
                                 \<lparr>Type = Some IPAddressType, Value = ''192.0.2.1''\<rparr>]\<rparr>"

section \<open>Properties\<close>

subsection \<open>Validation\<close>

lemma validateCustomWeights_None:
  "validateCustomWeights cws = None \<longleftrightarrow>
     (\<forall>cw \<in> set cws. Weight cw \<noteq> 0 \<and> \<not> emptySelector (Selector cw))"
  by (induction cws) (auto simp: emptySelector_def lenLabels_def)

lemma validateCustomWeights_zero:
  "\<exists>cw \<in> set cws. Weight cw = 0 \<Longrightarrow> \<forall>cw \<in> set cws. \<not> emptySelector (Selector cw) \<Longrightarrow>
     validateCustomWeights cws = Some ErrCustomWeightZero"
  by (induction cws) (auto simp: emptySelector_def lenLabels_def)

lemma validateCustomWeights_selector:
  "\<exists>cw \<in> set cws. emptySelector (Selector cw) \<Longrightarrow> \<forall>cw \<in> set cws. Weight cw \<noteq> 0 \<Longrightarrow>
     validateCustomWeights cws = Some ErrCustomWeightSelector"
  by (induction cws) (auto simp: emptySelector_def lenLabels_def)

text \<open>
  Claim C2. Under a strategy other than the simple one, \<open>Validate\<close> returns its own error
  for each of the five conditions when the other four requirements hold: an empty cluster
  ID, a zero default weight, an empty default geo code, a custom weight that is zero, a
  custom weight whose selector is empty. It returns no error when the five requirements
  hold together, and none under the simple strategy whatever the other fields are. The
  five errors have five different messages.
\<close>

theorem Validate_complete:
  "(Strategy r = SimpleRoutingStrategy \<longrightarrow> Validate r = None) \<and>
   (Strategy r \<noteq> SimpleRoutingStrategy \<longrightarrow>
      (ClusterID r = [] \<and> DefaultWeight r \<noteq> 0 \<and> DefaultGeoCode r \<noteq> []
         \<and> (\<forall>cw \<in> set (CustomWeights r). Weight cw \<noteq> 0 \<and> \<not> emptySelector (Selector cw))
         \<longrightarrow> Validate r = Some ErrClusterIDRequired) \<and>
      (ClusterID r \<noteq> [] \<and> DefaultWeight r = 0 \<and> DefaultGeoCode r \<noteq> []
         \<and> (\<forall>cw \<in> set (CustomWeights r). Weight cw \<noteq> 0 \<and> \<not> emptySelector (Selector cw))
         \<longrightarrow> Validate r = Some ErrDefaultWeightRequired) \<and>
      (ClusterID r \<noteq> [] \<and> DefaultWeight r \<noteq> 0 \<and> DefaultGeoCode r = []
         \<and> (\<forall>cw \<in> set (CustomWeights r). Weight cw \<noteq> 0 \<and> \<not> emptySelector (Selector cw))
         \<longrightarrow> Validate r = Some ErrDefaultGeocodeRequired) \<and>
      (ClusterID r \<noteq> [] \<and> DefaultWeight r \<noteq> 0 \<and> DefaultGeoCode r \<noteq> []
         \<and> (\<exists>cw \<in> set (CustomWeights r). Weight cw = 0)
         \<and> (\<forall>cw \<in> set (CustomWeights r). \<not> emptySelector (Selector cw))
         \<longrightarrow> Validate r = Some ErrCustomWeightZero) \<and>
      (ClusterID r \<noteq> [] \<and> DefaultWeight r \<noteq> 0 \<and> DefaultGeoCode r \<noteq> []
         \<and> (\<forall>cw \<in> set (CustomWeights r). Weight cw \<noteq> 0)
         \<and> (\<exists>cw \<in> set (CustomWeights r). emptySelector (Selector cw))
         \<longrightarrow> Validate r = Some ErrCustomWeightSelector) \<and>
      (ClusterID r \<noteq> [] \<and> DefaultWeight r \<noteq> 0 \<and> DefaultGeoCode r \<noteq> []
         \<and> (\<forall>cw \<in> set (CustomWeights r). Weight cw \<noteq> 0 \<and> \<not> emptySelector (Selector cw))
         \<longrightarrow> Validate r = None)) \<and>
   distinct (map Error [ErrClusterIDRequired, ErrDefaultWeightRequired, ErrDefaultGeocodeRequired,
                        ErrCustomWeightZero, ErrCustomWeightSelector])"
proof -
  have simple: "Strategy r = SimpleRoutingStrategy \<Longrightarrow> Validate r = None"
    by (simp add: Validate_def)
  have messages: "distinct (map Error [ErrClusterIDRequired, ErrDefaultWeightRequired,
      ErrDefaultGeocodeRequired, ErrCustomWeightZero, ErrCustomWeightSelector])"
    by simp
  show ?thesis
    using simple messages
    by (simp add: Validate_def validateCustomWeights_None validateCustomWeights_zero
        validateCustomWeights_selector)
qed

theorem Validate_complete_witness:
  "Validate (sampleRouting\<lparr>Strategy := SimpleRoutingStrategy, ClusterID := []\<rparr>) = None \<and>
   Validate (sampleRouting\<lparr>ClusterID := []\<rparr>) = Some ErrClusterIDRequired \<and>
   Validate (sampleRouting\<lparr>DefaultWeight := 0\<rparr>) = Some ErrDefaultWeightRequired \<and>
   Validate (sampleRouting\<lparr>DefaultGeoCode := []\<rparr>) = Some ErrDefaultGeocodeRequired \<and>
   Validate (sampleRouting\<lparr>CustomWeights := [\<lparr>Weight = 0, Selector = selectorFoo\<rparr>]\<rparr>)
     = Some ErrCustomWeightZero \<and>
   Validate (sampleRouting\<lparr>CustomWeights := [\<lparr>Weight = 100, Selector = selectorAbsent\<rparr>]\<rparr>)
     = Some ErrCustomWeightSelector \<and>
   Validate (sampleRouting\<lparr>CustomWeights := [\<lparr>Weight = 100, Selector = selectorFoo\<rparr>]\<rparr>) = None"
  using Validate_complete [of "sampleRouting\<lparr>Strategy := SimpleRoutingStrategy, ClusterID := []\<rparr>"]
    Validate_complete [of "sampleRouting\<lparr>ClusterID := []\<rparr>"]
    Validate_complete [of "sampleRouting\<lparr>DefaultWeight := 0\<rparr>"]
    Validate_complete [of "sampleRouting\<lparr>DefaultGeoCode := []\<rparr>"]
    Validate_complete [of "sampleRouting\<lparr>CustomWeights := [\<lparr>Weight = 0, Selector = selectorFoo\<rparr>]\<rparr>"]
    Validate_complete [of "sampleRouting\<lparr>CustomWeights := [\<lparr>Weight = 100, Selector = selectorAbsent\<rparr>]\<rparr>"]
    Validate_complete [of "sampleRouting\<lparr>CustomWeights := [\<lparr>Weight = 100, Selector = selectorFoo\<rparr>]\<rparr>"]
  by (simp add: sampleRouting_def SimpleRoutingStrategy_def LoadBalancedRoutingStrategy_def
      emptySelector_def selectorFoo_def selectorAbsent_def)

subsection \<open>Weights\<close>

lemma getWeightLoop_first_match:
  assumes "\<forall>c \<in> set pre. \<exists>sel. LabelSelectorAsSelector L (Selector c) = Some sel \<and> \<not> sel ls"
    and "LabelSelectorAsSelector L (Selector cw) = Some sel" and "sel ls"
  shows "getWeightLoop L ls w (pre @ cw # post) = Weight cw"
  using assms by (induction pre) auto

lemma getWeightLoop_malformed:
  assumes "\<forall>c \<in> set pre. \<exists>sel. LabelSelectorAsSelector L (Selector c) = Some sel \<and> \<not> sel ls"
    and "LabelSelectorAsSelector L (Selector cw) = None"
  shows "getWeightLoop L ls w (pre @ cw # post) = w"
  using assms by (induction pre) auto

lemma getWeightLoop_no_match:
  assumes "\<forall>c \<in> set cws. \<exists>sel. LabelSelectorAsSelector L (Selector c) = Some sel \<and> \<not> sel ls"
  shows "getWeightLoop L ls w cws = w"
  using assms by (induction cws) auto

text \<open>
  Claim C6. \<open>getWeight\<close> goes through the custom weights in their order. When the
  selectors before an entry all compile and none of them matches the labels of the
  gateway, the result is the weight of that entry if its selector compiles and matches,
  and the default weight if its selector does not compile. When every selector compiles
  and none matches, the result is the default weight. No case is an error.
\<close>

theorem getWeight_first_match:
  "(CustomWeights r = pre @ cw # post
      \<and> (\<forall>c \<in> set pre. \<exists>sel. LabelSelectorAsSelector L (Selector c) = Some sel
                                \<and> \<not> sel (Labels gateway))
      \<and> (\<exists>sel. LabelSelectorAsSelector L (Selector cw) = Some sel \<and> sel (Labels gateway))
      \<longrightarrow> getWeight L r gateway = Weight cw) \<and>
   (CustomWeights r = pre @ cw # post
      \<and> (\<forall>c \<in> set pre. \<exists>sel. LabelSelectorAsSelector L (Selector c) = Some sel
                                \<and> \<not> sel (Labels gateway))
      \<and> LabelSelectorAsSelector L (Selector cw) = None
      \<longrightarrow> getWeight L r gateway = DefaultWeight r) \<and>
   ((\<forall>c \<in> set (CustomWeights r). \<exists>sel. LabelSelectorAsSelector L (Selector c) = Some sel
                                         \<and> \<not> sel (Labels gateway))
      \<longrightarrow> getWeight L r gateway = DefaultWeight r)"
  unfolding getWeight_def
  by (auto simp: getWeightLoop_first_match getWeightLoop_malformed getWeightLoop_no_match)

theorem getWeight_first_match_witness:
  "getWeight sampleLib
     (sampleRouting\<lparr>CustomWeights := [\<lparr>Weight = 50, Selector = selectorBar\<rparr>,
                                       \<lparr>Weight = 100, Selector = selectorFoo\<rparr>,
                                       \<lparr>Weight = 70, Selector = selectorFoo\<rparr>]\<rparr>)
     sampleGateway = 100 \<and>
   getWeight sampleLib
     (sampleRouting\<lparr>CustomWeights := [\<lparr>Weight = 50, Selector = selectorBar\<rparr>,
                                       \<lparr>Weight = 60, Selector = selectorMalformed\<rparr>,
                                       \<lparr>Weight = 100, Selector = selectorFoo\<rparr>]\<rparr>)
     sampleGateway = 120 \<and>
   getWeight sampleLib
     (sampleRouting\<lparr>CustomWeights := [\<lparr>Weight = 50, Selector = selectorBar\<rparr>]\<rparr>)
     sampleGateway = 120"
  using getWeight_first_match [of
      "sampleRouting\<lparr>CustomWeights := [\<lparr>Weight = 50, Selector = selectorBar\<rparr>,
                                        \<lparr>Weight = 100, Selector = selectorFoo\<rparr>,
                                        \<lparr>Weight = 70, Selector = selectorFoo\<rparr>]\<rparr>"
      "[\<lparr>Weight = 50, Selector = selectorBar\<rparr>]" "\<lparr>Weight = 100, Selector = selectorFoo\<rparr>"
      "[\<lparr>Weight = 70, Selector = selectorFoo\<rparr>]" sampleLib sampleGateway]
    getWeight_first_match [of
      "sampleRouting\<lparr>CustomWeights := [\<lparr>Weight = 50, Selector = selectorBar\<rparr>,
                                        \<lparr>Weight = 60, Selector = selectorMalformed\<rparr>,
                                        \<lparr>Weight = 100, Selector = selectorFoo\<rparr>]\<rparr>"
      "[\<lparr>Weight = 50, Selector = selectorBar\<rparr>]" "\<lparr>Weight = 60, Selector = selectorMalformed\<rparr>"
      "[\<lparr>Weight = 100, Selector = selectorFoo\<rparr>]" sampleLib sampleGateway]
    getWeight_first_match [of
      "sampleRouting\<lparr>CustomWeights := [\<lparr>Weight = 50, Selector = selectorBar\<rparr>]\<rparr>"
      "[]" "\<lparr>Weight = 50, Selector = selectorBar\<rparr>" "[]" sampleLib sampleGateway]
  by (simp add: sampleRouting_def sampleLib_def sampleSelector_def selectorBar_def
      selectorFoo_def selectorMalformed_def sampleGateway_def LabelLBAttributeGeoCode_def)

subsection \<open>The identity key\<close>

text \<open>
  Claim C10. The identity key is the name followed by the set identifier with nothing
  between them, so records with different identities can have the same key: moving the
  last character of a name to the front of the set identifier keeps the key. The merge
  step then takes one for the other: with the record named \<open>ab\<close> of set identifier \<open>c\<close>
  as the only previous record, creating the record named \<open>a\<close> of set identifier \<open>bc\<close>
  returns the pointer of the previous record and allocates nothing.
\<close>

theorem getSetID_collision:
  "(name @ [c], sid) \<noteq> (name, c # sid) \<and>
   getSetID (e\<lparr>DNSName := name @ [c], SetIdentifier := sid\<rparr>)
     = getSetID (e'\<lparr>DNSName := name, SetIdentifier := c # sid\<rparr>) \<and>
   currentEndpointsLoop [zeroEndpoint\<lparr>DNSName := ''ab'', SetIdentifier := ''c''\<rparr>] [Some 0] Map.empty
     = Some [''abc'' \<mapsto> 0] \<and>
   createOrUpdateEndpoint ''a'' [''192.0.2.1''] ARecordType ''bc'' DefaultTTL [''abc'' \<mapsto> 0]
       [zeroEndpoint\<lparr>DNSName := ''ab'', SetIdentifier := ''c''\<rparr>]
     = (0, [zeroEndpoint\<lparr>DNSName := ''a'', SetIdentifier := ''c'', Targets := [''192.0.2.1''],
                          RecordType := ARecordType, RecordTTL := DefaultTTL\<rparr>])"
  by (simp add: getSetID_def createOrUpdateEndpoint_def zeroEndpoint_def)

subsection \<open>Records, emissions and the heap\<close>

lemma createOrUpdateEndpoint_hit:
  "ce (n @ s) = Some p \<Longrightarrow>
   createOrUpdateEndpoint n ts ty s ttl ce h =
     (p, h[p := (h ! p)\<lparr>DNSName := n, RecordType := ty, Targets := ts, RecordTTL := ttl\<rparr>])"
  by (simp add: createOrUpdateEndpoint_def)

lemma createOrUpdateEndpoint_miss:
  "ce (n @ s) = None \<Longrightarrow>
   createOrUpdateEndpoint n ts ty s ttl ce h =
     (length h,
      h @ [\<lparr>DNSName = n, Targets = ts, RecordType = ty, SetIdentifier = s, RecordTTL = ttl,
            EndpointLabels = [], ProviderSpecific = []\<rparr>])"
  by (simp add: createOrUpdateEndpoint_def zeroEndpoint_def)

lemma emit_miss:
  "ce (eKey e) = None \<Longrightarrow> emit ce e h = (length h, h @ [freshRecord e])"
  by (simp add: emit_def eKey_def createOrUpdateEndpoint_miss freshRecord_def
      SetProviderSpecificProperty_def split: option.splits)

lemma emit_hit:
  "ce (eKey e) = Some p \<Longrightarrow> p < length h \<Longrightarrow> emit ce e h = (p, h[p := written e (h ! p)])"
  by (simp add: emit_def eKey_def createOrUpdateEndpoint_hit written_def
      SetProviderSpecificProperty_def split: option.splits)

lemma emitAll_append:
  "emitAll ce (es1 @ es2) eps h =
     (let (eps1, h1) = emitAll ce es1 eps h in emitAll ce es2 eps1 h1)"
  by (induction es1 arbitrary: eps h) (auto split: prod.splits)

lemma emitAll_fresh:
  "\<forall>e \<in> set es. ce (eKey e) = None \<Longrightarrow>
   emitAll ce es eps h = (eps @ [length h ..< length h + length es], h @ map freshRecord es)"
proof (induction es arbitrary: eps h)
  case Nil
  then show ?case by simp
next
  case (Cons e es)
  have upt: "[length h ..< length h + length (e # es)]
               = length h # [length (h @ [freshRecord e]) ..< length (h @ [freshRecord e]) + length es]"
  proof -
    have "[length h ..< length h + Suc (length es)]
            = length h # [Suc (length h) ..< length h + Suc (length es)]"
      by (rule upt_conv_Cons) simp
    then show ?thesis by simp
  qed
  have "emitAll ce (e # es) eps h = emitAll ce es (eps @ [length h]) (h @ [freshRecord e])"
    using Cons.prems by (simp add: emit_miss)
  also have "\<dots> = ((eps @ [length h]) @ [length (h @ [freshRecord e]) ..< length (h @ [freshRecord e]) + length es],
                    (h @ [freshRecord e]) @ map freshRecord es)"
    using Cons.prems by (intro Cons.IH) simp
  finally show ?case
    unfolding upt by simp
qed


lemma emitAll_length: "length (fst (emitAll ce es eps h)) = length eps + length es"
  by (induction es arbitrary: eps h) (auto split: prod.splits)

lemma emitAll_Nil_iff: "fst (emitAll ce es [] h) = [] \<longleftrightarrow> es = []"
  using emitAll_length [of ce es "[]" h] by auto

lemma getSimpleEndpoints_emitAll:
  "getSimpleEndpoints (Some gw) hostname ce h =
     (case addressLoop (Addresses gw) [] [] of
        None \<Rightarrow> None
      | Some (ipValues, hostValues) \<Rightarrow>
          Some (emitAll ce (simpleEmissions hostname ipValues hostValues) [] h))"
  by (auto simp: getSimpleEndpoints_def simpleEmissions_def emit_def
      split: option.splits prod.splits)

lemma hostValuesLoop_emitAll:
  "hostValuesLoop (geoLbNameOf L gw hostname) (Itoa (getWeight L r gw)) ce hvs eps h =
     emitAll ce (map (weightEmission L gw r hostname) hvs) eps h"
  by (induction hvs arbitrary: eps h)
     (auto simp: emit_def weightEmission_def split: prod.splits)

lemma geoLayer_emitAll:
  "geoLayer L gw r hostname ce ipValues hostValues h =
     emitAll ce (geoEmissions L gw r hostname ipValues hostValues) [] h"
  by (auto simp: geoLayer_def geoEmissions_def hostValuesLoop_emitAll emit_def Let_def
      split: prod.splits)

lemma lbLayer_emitAll:
  "lbLayer L gw r hostname ce eps h =
     (if eps = [] then (eps, h) else emitAll ce (lbEmissions L gw r hostname) eps h)"
  by (auto simp: lbLayer_def lbEmissions_def emit_def Let_def split: prod.splits)

lemma geoEmissions_Nil_iff:
  "geoEmissions L gw r hostname ipValues hostValues = [] \<longleftrightarrow> ipValues = [] \<and> hostValues = []"
  by (simp add: geoEmissions_def)

lemma getLoadBalancedEndpoints_emitAll:
  "getLoadBalancedEndpoints L (Some gw) r hostname ce h =
     (case addressLoop (Addresses gw) [] [] of
        None \<Rightarrow> None
      | Some (ipValues, hostValues) \<Rightarrow>
          Some (emitAll ce (loadBalancedEmissions L gw r hostname ipValues hostValues) [] h))"
proof (cases "addressLoop (Addresses gw) [] []")
  case None
  then show ?thesis by (simp add: getLoadBalancedEndpoints_def)
next
  case (Some a)
  obtain ipValues hostValues where a: "a = (ipValues, hostValues)" by (cases a)
  obtain eps h1 where g: "emitAll ce (geoEmissions L gw r hostname ipValues hostValues) [] h = (eps, h1)"
    by (cases "emitAll ce (geoEmissions L gw r hostname ipValues hostValues) [] h")
  have nil: "eps = [] \<longleftrightarrow> ipValues = [] \<and> hostValues = []"
    using emitAll_Nil_iff [of ce "geoEmissions L gw r hostname ipValues hostValues" h] g
    by (simp add: geoEmissions_Nil_iff)
  show ?thesis
  proof (cases "ipValues = [] \<and> hostValues = []")
    case True
    then show ?thesis
      using Some a g nil
      by (simp add: getLoadBalancedEndpoints_def geoLayer_emitAll lbLayer_emitAll
          loadBalancedEmissions_def geoEmissions_def)
  next
    case False
    then have "eps \<noteq> []" and "loadBalancedEmissions L gw r hostname ipValues hostValues
        = geoEmissions L gw r hostname ipValues hostValues @ lbEmissions L gw r hostname"
      using nil by (auto simp: loadBalancedEmissions_def)
    then show ?thesis
      using Some a g
      by (simp add: getLoadBalancedEndpoints_def geoLayer_emitAll lbLayer_emitAll
          emitAll_append)
  qed
qed

lemma addressLoop_Some:
  "list_all (\<lambda>gwa. Type gwa \<noteq> None) addresses \<Longrightarrow>
   addressLoop addresses ips hosts = Some (ips @ ipValuesOf addresses, hosts @ hostValuesOf addresses)"
  by (induction addresses arbitrary: ips hosts) (auto simp: ipValuesOf_def hostValuesOf_def)

lemma addressLoop_None:
  "\<not> list_all (\<lambda>gwa. Type gwa \<noteq> None) addresses \<Longrightarrow> addressLoop addresses ips hosts = None"
  by (induction addresses arbitrary: ips hosts) (auto split: option.splits)

lemma addressLoop_eq:
  "addressLoop addresses [] [] =
     (if list_all (\<lambda>gwa. Type gwa \<noteq> None) addresses
      then Some (ipValuesOf addresses, hostValuesOf addresses) else None)"
  using addressLoop_Some [of addresses "[]" "[]"] addressLoop_None [of addresses "[]" "[]"]
  by simp

lemma filter_setProperty:
  "k \<in> K \<Longrightarrow> filter (\<lambda>(n, v). n \<notin> K) (setProperty k v ps) = filter (\<lambda>(n, v). n \<notin> K) ps"
proof (induction ps)
  case Nil
  then show ?case by simp
next
  case (Cons a ps)
  obtain n w where a: "a = (n, w)" by (cases a)
  show ?case
  proof (cases "n = k")
    case True
    then show ?thesis using Cons.prems a by simp
  next
    case False
    then show ?thesis using Cons a by simp
  qed
qed

lemma sameOtherFields_refl: "sameOtherFields K a a"
  by (simp add: sameOtherFields_def)

lemma sameOtherFields_trans:
  "sameOtherFields K a b \<Longrightarrow> sameOtherFields K b c \<Longrightarrow> sameOtherFields K a c"
  by (simp add: sameOtherFields_def)

lemma written_sameOtherFields: "propertyIn K e \<Longrightarrow> sameOtherFields K a (written e a)"
  by (auto simp: sameOtherFields_def written_def propertyIn_def otherProperties_def
      filter_setProperty split: option.splits)

lemma getSetID_freshRecord: "getSetID (freshRecord e) = eKey e"
  by (simp add: getSetID_def freshRecord_def eKey_def)

lemma emit_cases:
  assumes "heapInv ce n h" and "emit ce e h = (p, h1)"
  shows "(ce (eKey e) = Some p \<and> p < n \<and> h1 = h[p := written e (h ! p)])
       \<or> (ce (eKey e) = None \<and> p = length h \<and> h1 = h @ [freshRecord e])"
proof (cases "ce (eKey e)")
  case None
  then show ?thesis using assms by (simp add: emit_miss)
next
  case (Some q)
  then have "q < n" using assms(1) by (auto simp: heapInv_def)
  moreover from this have "q < length h" using assms(1) by (simp add: heapInv_def)
  ultimately have "q < n" and "q < length h" by simp_all
  then show ?thesis using assms Some by (auto simp: emit_hit)
qed

lemma emit_inv:
  assumes "heapInv ce n h" and "emit ce e h = (p, h1)"
  shows "heapInv ce n h1"
  using emit_cases [OF assms] assms(1)
  by (auto simp: heapInv_def nth_append getSetID_freshRecord)

lemma emit_frame:
  assumes "heapInv ce n h" and "emit ce e h = (p, h1)"
  shows "length h \<le> length h1" and "p < length h1"
    and "\<And>q. q < length h \<Longrightarrow> ce (eKey e) \<noteq> Some q \<Longrightarrow> h1 ! q = h ! q"
    and "\<And>q. q < length h \<Longrightarrow> propertyIn K e \<Longrightarrow> sameOtherFields K (h ! q) (h1 ! q)"
    and "p < n \<longleftrightarrow> ce (eKey e) = Some p"
    and "p < n \<or> p = length h"
  using emit_cases [OF assms] assms(1)
  by (auto simp: heapInv_def nth_append nth_list_update sameOtherFields_refl
      written_sameOtherFields)


lemma emitAll_inv:
  assumes "heapInv ce n h" and "emitAll ce es eps h = (eps', h')"
  shows "heapInv ce n h' \<and> length h \<le> length h'
       \<and> (\<exists>ps. eps' = eps @ ps \<and> length ps = length es
               \<and> (\<forall>p \<in> set ps. p < length h'
                                \<and> (p < n \<longrightarrow> (\<exists>e \<in> set es. ce (eKey e) = Some p))
                                \<and> (n \<le> p \<longrightarrow> length h \<le> p)))
       \<and> (\<forall>q < length h. (\<forall>e \<in> set es. ce (eKey e) \<noteq> Some q) \<longrightarrow> h' ! q = h ! q)
       \<and> (\<forall>q < length h. (\<forall>e \<in> set es. propertyIn K e) \<longrightarrow> sameOtherFields K (h ! q) (h' ! q))"
  using assms
proof (induction es arbitrary: eps h)
  case Nil
  then show ?case by (simp add: sameOtherFields_refl)
next
  case (Cons e es)
  obtain p h1 where e: "emit ce e h = (p, h1)" by (cases "emit ce e h")
  with Cons.prems have rest: "emitAll ce es (eps @ [p]) h1 = (eps', h')" by simp
  note f = emit_frame [OF Cons.prems(1) e]
  have inv1: "heapInv ce n h1" by (rule emit_inv [OF Cons.prems(1) e])
  from Cons.IH [OF inv1 rest] obtain ps where
    ih: "heapInv ce n h'" "length h1 \<le> length h'" "eps' = (eps @ [p]) @ ps" "length ps = length es"
      "\<forall>p \<in> set ps. p < length h' \<and> (p < n \<longrightarrow> (\<exists>e \<in> set es. ce (eKey e) = Some p))
                      \<and> (n \<le> p \<longrightarrow> length h1 \<le> p)"
      "\<forall>q < length h1. (\<forall>e \<in> set es. ce (eKey e) \<noteq> Some q) \<longrightarrow> h' ! q = h1 ! q"
      "\<forall>q < length h1. (\<forall>e \<in> set es. propertyIn K e) \<longrightarrow> sameOtherFields K (h1 ! q) (h' ! q)"
    by blast
  have a: "eps' = eps @ (p # ps) \<and> length (p # ps) = length (e # es)"
    using ih(3,4) by simp
  have b: "\<forall>x \<in> set (p # ps). x < length h'
             \<and> (x < n \<longrightarrow> (\<exists>e' \<in> set (e # es). ce (eKey e') = Some x))
             \<and> (n \<le> x \<longrightarrow> length h \<le> x)"
  proof
    fix x assume "x \<in> set (p # ps)"
    then consider "x = p" | "x \<in> set ps" by auto
    then show "x < length h' \<and> (x < n \<longrightarrow> (\<exists>e' \<in> set (e # es). ce (eKey e') = Some x))
             \<and> (n \<le> x \<longrightarrow> length h \<le> x)"
    proof cases
      case 1
      then show ?thesis using f(2,5,6) ih(2) by auto
    next
      case 2
      then show ?thesis using ih(5) f(1) by fastforce
    qed
  qed
  have c: "\<forall>q < length h. (\<forall>e' \<in> set (e # es). ce (eKey e') \<noteq> Some q) \<longrightarrow> h' ! q = h ! q"
    using f(1,3) ih(6) by (metis list.set_intros(1,2) less_le_trans)
  have d: "\<forall>q < length h. (\<forall>e' \<in> set (e # es). propertyIn K e') \<longrightarrow> sameOtherFields K (h ! q) (h' ! q)"
  proof (intro allI impI)
    fix q assume q: "q < length h" and k: "\<forall>e' \<in> set (e # es). propertyIn K e'"
    have "sameOtherFields K (h ! q) (h1 ! q)" using f(4) q k by simp
    moreover have "sameOtherFields K (h1 ! q) (h' ! q)" using ih(7) q f(1) k by simp
    ultimately show "sameOtherFields K (h ! q) (h' ! q)" by (rule sameOtherFields_trans)
  qed
  have ab: "\<exists>ps'. eps' = eps @ ps' \<and> length ps' = length (e # es)
               \<and> (\<forall>x \<in> set ps'. x < length h'
                      \<and> (x < n \<longrightarrow> (\<exists>e' \<in> set (e # es). ce (eKey e') = Some x))
                      \<and> (n \<le> x \<longrightarrow> length h \<le> x))"
    using a b by blast
  have le: "length h \<le> length h'" using ih(2) f(1) by simp
  show ?case using ih(1) le ab c d by blast
qed

lemma currentEndpointsLoop_None_iff:
  "currentEndpointsLoop h xs m = None \<longleftrightarrow> \<not> noNilPointer h xs"
  by (induction xs arbitrary: m) (auto simp: noNilPointer_def split: option.splits)

lemma currentEndpointsLoop_Some:
  assumes "currentEndpointsLoop h xs m = Some ce"
  shows "(\<forall>k p. ce k = Some p \<longrightarrow>
            m k = Some p \<or> (p < length h \<and> Some p \<in> set xs \<and> getSetID (h ! p) = k))
       \<and> (\<forall>p. Some p \<in> set xs \<longrightarrow> ce (getSetID (h ! p)) \<noteq> None)
       \<and> (\<forall>k. m k \<noteq> None \<longrightarrow> ce k \<noteq> None)"
  using assms
proof (induction xs arbitrary: m)
  case Nil
  then show ?case by simp
next
  case (Cons x xs)
  then obtain p where x: "x = Some p" and p: "p < length h"
    and rest: "currentEndpointsLoop h xs (m(getSetID (h ! p) \<mapsto> p)) = Some ce"
    by (auto split: option.splits if_splits)
  note ih = Cons.IH [OF rest]
  show ?case
  proof (intro conjI allI impI)
    fix k q assume "ce k = Some q"
    with ih have "(m(getSetID (h ! p) \<mapsto> p)) k = Some q
        \<or> (q < length h \<and> Some q \<in> set xs \<and> getSetID (h ! q) = k)" by blast
    then show "m k = Some q \<or> (q < length h \<and> Some q \<in> set (x # xs) \<and> getSetID (h ! q) = k)"
      using x p by (auto split: if_splits)
  next
    fix q assume "Some q \<in> set (x # xs)"
    then show "ce (getSetID (h ! q)) \<noteq> None"
      using ih x by (auto split: if_splits)
  next
    fix k assume "m k \<noteq> None"
    then show "ce k \<noteq> None" using ih by (auto split: if_splits)
  qed
qed

lemma currentEndpointsLoop_heapInv:
  assumes "currentEndpointsLoop h xs Map.empty = Some ce"
  shows "heapInv ce (length h) h"
  using currentEndpointsLoop_Some [OF assms] by (auto simp: heapInv_def)

lemma set_insertByKey: "set (insertByKey h p qs) = insert p (set qs)"
  by (induction qs) auto

lemma sorted_insertByKey:
  "sorted (map (keyOf h) qs) \<Longrightarrow> sorted (map (keyOf h) (insertByKey h p qs))"
  by (induction qs) (auto simp: keyOf_def set_insertByKey)

lemma length_insertByKey: "length (insertByKey h p qs) = Suc (length qs)"
  by (induction qs) auto

lemma foldl_insertByKey:
  "sorted (map (keyOf h) acc) \<Longrightarrow>
   sorted (map (keyOf h) (foldl (\<lambda>sorted_part p. insertByKey h p sorted_part) acc ps))
   \<and> set (foldl (\<lambda>sorted_part p. insertByKey h p sorted_part) acc ps) = set acc \<union> set ps
   \<and> length (foldl (\<lambda>sorted_part p. insertByKey h p sorted_part) acc ps) = length acc + length ps"
  by (induction ps arbitrary: acc)
     (auto simp: sorted_insertByKey set_insertByKey length_insertByKey)

lemma mset_insertByKey: "mset (insertByKey h p qs) = add_mset p (mset qs)"
  by (induction qs) auto

lemma mset_foldl_insertByKey:
  "mset (foldl (\<lambda>sorted_part p. insertByKey h p sorted_part) acc ps) = mset acc + mset ps"
  by (induction ps arbitrary: acc) (simp_all add: mset_insertByKey)

lemma insertionSort_props:
  "sorted (map (keyOf h) (insertionSort h ps))" "mset (insertionSort h ps) = mset ps"
  using foldl_insertByKey [of h "[]" ps] mset_foldl_insertByKey [of h "[]" ps]
  by (simp_all add: insertionSort_def)

lemma sortsKeys_order:
  assumes "sortsKeys (map f ps) order"
  shows "sorted (map f (map (\<lambda>i. ps ! i) order))" and "mset (map (\<lambda>i. ps ! i) order) = mset ps"
proof -
  have len: "length order = length ps" and d: "distinct order"
    and b: "\<forall>i \<in> set order. i < length ps"
    and s: "sorted (map (\<lambda>i. map f ps ! i) order)"
    using assms by (simp_all add: sortsKeys_def list_all_iff)
  have eq: "map f (map (\<lambda>i. ps ! i) order) = map (\<lambda>i. map f ps ! i) order" using b by simp
  show "sorted (map f (map (\<lambda>i. ps ! i) order))" unfolding eq by (rule s)
  have "set order \<subseteq> {0 ..< length ps}" using b by auto
  moreover have "card (set order) = card {0 ..< length ps}"
    using d len by (simp add: distinct_card)
  ultimately have "set order = {0 ..< length ps}" by (intro card_subset_eq) simp_all
  then have "set order = set [0 ..< length ps]" by simp
  then have "mset order = mset [0 ..< length ps]"
    using d by (simp only: set_eq_iff_mset_eq_distinct [OF d distinct_upt])
  then have "mset (map (\<lambda>i. ps ! i) order) = mset (map (\<lambda>i. ps ! i) [0 ..< length ps])"
    by (metis mset_map)
  then show "mset (map (\<lambda>i. ps ! i) order) = mset ps" by (simp only: map_nth)
qed

lemma sortSlice_sorts:
  "sorted (map (keyOf h) (sortSlice L h ps))" "mset (sortSlice L h ps) = mset ps"
  using insertionSort_props [of h ps] sortsKeys_order [of "keyOf h" ps "Pdqsort L (map (keyOf h) ps)"]
  by (simp_all add: sortSlice_def Let_def keyOf_def [abs_def])


lemma GenerateEndpoints_success:
  assumes "GenerateEndpoints L gateway dnsRecord listener routing h = Return eps None h'"
  obtains host dnsr ce r gw ps where
    "Hostname listener = Some host" "dnsRecord = Some dnsr"
    "currentEndpointsLoop h (Endpoints dnsr) Map.empty = Some ce"
    "routing = Some r" "Validate r = None"
    "Strategy r = SimpleRoutingStrategy \<or> Strategy r = LoadBalancedRoutingStrategy"
    "gateway = Some gw" "noNilType gw"
    "emitAll ce (emissionsOf L gw r host) [] h = (ps, h')" "eps = sortSlice L h' ps"
proof -
  from assms obtain host where host: "Hostname listener = Some host"
    by (auto simp: GenerateEndpoints_def split: option.splits)
  from assms host obtain dnsr where dnsr: "dnsRecord = Some dnsr"
    by (auto simp: GenerateEndpoints_def split: option.splits)
  from assms host dnsr obtain ce where
    ce: "currentEndpointsLoop h (Endpoints dnsr) Map.empty = Some ce"
    by (auto simp: GenerateEndpoints_def split: option.splits)
  from assms host dnsr ce obtain r where r: "routing = Some r"
    by (auto simp: GenerateEndpoints_def split: option.splits)
  from assms host dnsr ce r have v: "Validate r = None"
    by (auto simp: GenerateEndpoints_def split: option.splits)
  from assms host dnsr ce r v
  have s: "Strategy r = SimpleRoutingStrategy \<or> Strategy r = LoadBalancedRoutingStrategy"
    by (auto simp: GenerateEndpoints_def split: if_splits)
  from assms host dnsr ce r v s obtain gw where gw: "gateway = Some gw"
    by (cases gateway)
       (auto simp: GenerateEndpoints_def sortAndReturn_def getSimpleEndpoints_def
          getLoadBalancedEndpoints_def split: if_splits)
  from assms host dnsr ce r v s gw have t: "noNilType gw"
    by (auto simp: GenerateEndpoints_def sortAndReturn_def getSimpleEndpoints_emitAll
        getLoadBalancedEndpoints_emitAll addressLoop_eq noNilType_def split: if_splits)
  from assms host dnsr ce r v s gw t obtain ps where
    "emitAll ce (emissionsOf L gw r host) [] h = (ps, h')" "eps = sortSlice L h' ps"
    by (auto simp: GenerateEndpoints_def sortAndReturn_def getSimpleEndpoints_emitAll
        getLoadBalancedEndpoints_emitAll addressLoop_eq noNilType_def emissionsOf_def
        SimpleRoutingStrategy_def LoadBalancedRoutingStrategy_def
        split: if_splits prod.splits)
  with host dnsr ce r v s gw t show thesis by (rule that)
qed

subsection \<open>Ordering of the result\<close>




subsection \<open>Errors\<close>

lemma currentEndpointsLoop_SomeD:
  "currentEndpointsLoop h xs m = Some ce \<Longrightarrow> noNilPointer h xs"
  using currentEndpointsLoop_None_iff [of h xs m] by auto

lemma GenerateEndpoints_Panic_iff:
  "GenerateEndpoints L gateway dnsRecord listener routing h = Panic
     \<longleftrightarrow> dereferencesNil gateway dnsRecord listener routing h"
  by (auto simp: GenerateEndpoints_def dereferencesNil_def sortAndReturn_def
      currentEndpointsLoop_None_iff getSimpleEndpoints_emitAll getLoadBalancedEndpoints_emitAll
      getSimpleEndpoints_def getLoadBalancedEndpoints_def
      addressLoop_eq noNilType_def dest: currentEndpointsLoop_SomeD
      split: option.splits prod.splits if_splits)

lemma GenerateEndpoints_error_iff:
  assumes "\<not> dereferencesNil gateway dnsRecord listener routing h"
  shows "(\<exists>eps e h'. GenerateEndpoints L gateway dnsRecord listener routing h = Return eps (Some e) h')
     \<longleftrightarrow> (Hostname listener = None \<or> dnsRecord = None
          \<or> (\<exists>r. routing = Some r
                 \<and> (Validate r \<noteq> None
                     \<or> (Strategy r \<noteq> SimpleRoutingStrategy
                         \<and> Strategy r \<noteq> LoadBalancedRoutingStrategy))))"
  using assms
  by (auto simp: GenerateEndpoints_def dereferencesNil_def sortAndReturn_def
      currentEndpointsLoop_None_iff getSimpleEndpoints_emitAll getLoadBalancedEndpoints_emitAll
      addressLoop_eq noNilType_def split: option.splits prod.splits if_splits)

lemma GenerateEndpoints_error_empty:
  "GenerateEndpoints L gateway dnsRecord listener routing h = Return eps (Some e) h'
     \<Longrightarrow> eps = [] \<and> h' = h"
  by (auto simp: GenerateEndpoints_def sortAndReturn_def split: option.splits prod.splits if_splits)

text \<open>
  Claim C3, amended. \<open>GenerateEndpoints\<close> panics exactly on the inputs that make it
  dereference a nil pointer. On every other input it returns an error exactly when the
  hostname of the listener is absent, the DNS record is absent, the validation of the
  routing fails or the strategy is neither the simple nor the load-balanced one. Whenever
  it returns an error, the slice it returns is empty and the heap is the one it was given.
\<close>

theorem GenerateEndpoints_errors:
  "(GenerateEndpoints L gateway dnsRecord listener routing h = Panic
      \<longleftrightarrow> dereferencesNil gateway dnsRecord listener routing h) \<and>
   (\<not> dereferencesNil gateway dnsRecord listener routing h \<longrightarrow>
      ((\<exists>eps e h'. GenerateEndpoints L gateway dnsRecord listener routing h = Return eps (Some e) h')
         \<longleftrightarrow> (Hostname listener = None \<or> dnsRecord = None
              \<or> (\<exists>r. routing = Some r
                     \<and> (Validate r \<noteq> None
                         \<or> (Strategy r \<noteq> SimpleRoutingStrategy
                             \<and> Strategy r \<noteq> LoadBalancedRoutingStrategy)))))) \<and>
   (\<forall>eps e h'. GenerateEndpoints L gateway dnsRecord listener routing h = Return eps (Some e) h'
        \<longrightarrow> eps = [] \<and> h' = h)"
  using GenerateEndpoints_Panic_iff [of L gateway dnsRecord listener routing h]
    GenerateEndpoints_error_iff [of gateway dnsRecord listener routing h L]
    GenerateEndpoints_error_empty [of L gateway dnsRecord listener routing h]
  by blast

theorem GenerateEndpoints_errors_witness:
  "\<not> dereferencesNil (Some sampleGateway) (Some \<lparr>Endpoints = []\<rparr>)
        \<lparr>Hostname = Some ''www.example.com''\<rparr> (Some (sampleRouting\<lparr>Strategy := ''cat''\<rparr>)) [] \<and>
   (\<exists>eps e h'. GenerateEndpoints sampleLib (Some sampleGateway) (Some \<lparr>Endpoints = []\<rparr>)
        \<lparr>Hostname = Some ''www.example.com''\<rparr> (Some (sampleRouting\<lparr>Strategy := ''cat''\<rparr>)) []
      = Return eps (Some e) h') \<and>
   \<not> dereferencesNil (Some sampleGateway) (Some \<lparr>Endpoints = []\<rparr>)
        \<lparr>Hostname = Some ''www.example.com''\<rparr> (Some sampleRouting) [] \<and>
   \<not> (\<exists>eps e h'. GenerateEndpoints sampleLib (Some sampleGateway) (Some \<lparr>Endpoints = []\<rparr>)
        \<lparr>Hostname = Some ''www.example.com''\<rparr> (Some sampleRouting) []
      = Return eps (Some e) h')"
  using GenerateEndpoints_errors [of sampleLib "Some sampleGateway" "Some \<lparr>Endpoints = []\<rparr>"
      "\<lparr>Hostname = Some ''www.example.com''\<rparr>" "Some (sampleRouting\<lparr>Strategy := ''cat''\<rparr>)" "[]"]
    GenerateEndpoints_errors [of sampleLib "Some sampleGateway" "Some \<lparr>Endpoints = []\<rparr>"
      "\<lparr>Hostname = Some ''www.example.com''\<rparr>" "Some sampleRouting" "[]"]
  by (simp add: dereferencesNil_def noNilPointer_def noNilType_def sampleGateway_def
      sampleRouting_def Validate_def SimpleRoutingStrategy_def LoadBalancedRoutingStrategy_def
      IPAddressType_def)

text \<open>
  Claim C3 as stated fails: with a hostname and a DNS record whose slice of previous
  records holds a nil pointer, the call panics in the loop over the previous records,
  before the validation, although the routing is invalid (its cluster ID is empty). No
  error is returned.
\<close>

theorem GenerateEndpoints_errors_counterexample:
  "GenerateEndpoints sampleLib (Some sampleGateway) (Some \<lparr>Endpoints = [None]\<rparr>)
       \<lparr>Hostname = Some ''www.example.com''\<rparr> (Some (sampleRouting\<lparr>ClusterID := []\<rparr>)) []
     = Panic \<and>
   Validate (sampleRouting\<lparr>ClusterID := []\<rparr>) = Some ErrClusterIDRequired"
  by (simp add: GenerateEndpoints_def Validate_def sampleRouting_def SimpleRoutingStrategy_def
      LoadBalancedRoutingStrategy_def)

subsection \<open>The records of the simple strategy\<close>

lemma simpleEmissions_keys:
  "e \<in> set (simpleEmissions hostname ips hosts) \<Longrightarrow> eKey e = hostname"
  by (auto simp: simpleEmissions_def eKey_def split: if_splits)

text \<open>
  Claim C4, amended. Under the simple strategy, for a gateway without a nil address type,
  the values of the IP addresses and those of the other addresses are collected in their
  order. When no previous record is held under the key of the hostname, the call
  allocates exactly: one record of type A named with the hostname whose targets are all
  the IP values, if there are any, and then one record of type CNAME named with the
  hostname whose targets are all the other values, if there are any; each has TTL 60, an
  empty set identifier, no labels and no provider-specific property. When a previous
  record is held under that key and the addresses are of one kind only, that record is
  the one returned, with its name, type, targets and TTL overwritten and its other
  fields kept. Without addresses nothing is returned and nothing written.
\<close>

theorem getSimpleEndpoints_records:
  assumes "noNilType gw"
  shows
    "(let ipValues = ipValuesOf (Addresses gw);
          hostValues = hostValuesOf (Addresses gw);
          records =
            (if ipValues \<noteq> []
             then [\<lparr>DNSName = hostname, Targets = ipValues, RecordType = ARecordType,
                    SetIdentifier = [], RecordTTL = 60, EndpointLabels = [],
                    ProviderSpecific = []\<rparr>]
             else [])
            @ (if hostValues \<noteq> []
               then [\<lparr>DNSName = hostname, Targets = hostValues, RecordType = CNAMERecordType,
                      SetIdentifier = [], RecordTTL = 60, EndpointLabels = [],
                      ProviderSpecific = []\<rparr>]
               else [])
      in (currentEndpoints hostname = None \<longrightarrow>
            getSimpleEndpoints (Some gw) hostname currentEndpoints h
              = Some ([length h ..< length h + length records], h @ records))
         \<and> (\<forall>p. currentEndpoints hostname = Some p \<and> p < length h
                  \<and> ipValues \<noteq> [] \<and> hostValues = [] \<longrightarrow>
               getSimpleEndpoints (Some gw) hostname currentEndpoints h
                 = Some ([p], h[p := (h ! p)\<lparr>DNSName := hostname, RecordType := ARecordType,
                                               Targets := ipValues, RecordTTL := 60\<rparr>]))
         \<and> (\<forall>p. currentEndpoints hostname = Some p \<and> p < length h
                  \<and> ipValues = [] \<and> hostValues \<noteq> [] \<longrightarrow>
               getSimpleEndpoints (Some gw) hostname currentEndpoints h
                 = Some ([p], h[p := (h ! p)\<lparr>DNSName := hostname, RecordType := CNAMERecordType,
                                               Targets := hostValues, RecordTTL := 60\<rparr>]))
         \<and> (ipValues = [] \<and> hostValues = [] \<longrightarrow>
               getSimpleEndpoints (Some gw) hostname currentEndpoints h = Some ([], h)))"
proof -
  let ?ips = "ipValuesOf (Addresses gw)" and ?hosts = "hostValuesOf (Addresses gw)"
  have run: "getSimpleEndpoints (Some gw) hostname currentEndpoints h
      = Some (emitAll currentEndpoints (simpleEmissions hostname ?ips ?hosts) [] h)"
    using assms by (simp add: getSimpleEndpoints_emitAll addressLoop_eq noNilType_def)
  have fresh: "currentEndpoints hostname = None \<Longrightarrow>
      emitAll currentEndpoints (simpleEmissions hostname ?ips ?hosts) [] h
        = ([length h ..< length h + length (simpleEmissions hostname ?ips ?hosts)],
           h @ map freshRecord (simpleEmissions hostname ?ips ?hosts))"
    using emitAll_fresh [of "simpleEmissions hostname ?ips ?hosts" currentEndpoints "[]" h]
    by (simp add: simpleEmissions_keys)
  have recs: "map freshRecord (simpleEmissions hostname ?ips ?hosts) =
      (if ?ips \<noteq> []
       then [\<lparr>DNSName = hostname, Targets = ?ips, RecordType = ARecordType,
              SetIdentifier = [], RecordTTL = 60, EndpointLabels = [], ProviderSpecific = []\<rparr>]
       else [])
      @ (if ?hosts \<noteq> []
         then [\<lparr>DNSName = hostname, Targets = ?hosts, RecordType = CNAMERecordType,
                SetIdentifier = [], RecordTTL = 60, EndpointLabels = [], ProviderSpecific = []\<rparr>]
         else [])"
    by (simp add: simpleEmissions_def freshRecord_def DefaultTTL_def)
  have len: "length (simpleEmissions hostname ?ips ?hosts)
      = length (map freshRecord (simpleEmissions hostname ?ips ?hosts))"
    by simp
  have c1: "currentEndpoints hostname = None \<Longrightarrow>
      getSimpleEndpoints (Some gw) hostname currentEndpoints h
        = Some ([length h ..< length h + length (map freshRecord (simpleEmissions hostname ?ips ?hosts))],
                h @ map freshRecord (simpleEmissions hostname ?ips ?hosts))"
    using run fresh by simp
  have c2: "currentEndpoints hostname = Some p \<Longrightarrow> p < length h \<Longrightarrow> ?ips \<noteq> [] \<Longrightarrow> ?hosts = [] \<Longrightarrow>
      getSimpleEndpoints (Some gw) hostname currentEndpoints h
        = Some ([p], h[p := (h ! p)\<lparr>DNSName := hostname, RecordType := ARecordType,
                                      Targets := ?ips, RecordTTL := 60\<rparr>])" for p
    using run by (simp add: simpleEmissions_def emit_hit eKey_def written_def DefaultTTL_def)
  have c3: "currentEndpoints hostname = Some p \<Longrightarrow> p < length h \<Longrightarrow> ?ips = [] \<Longrightarrow> ?hosts \<noteq> [] \<Longrightarrow>
      getSimpleEndpoints (Some gw) hostname currentEndpoints h
        = Some ([p], h[p := (h ! p)\<lparr>DNSName := hostname, RecordType := CNAMERecordType,
                                      Targets := ?hosts, RecordTTL := 60\<rparr>])" for p
    using run by (simp add: simpleEmissions_def emit_hit eKey_def written_def DefaultTTL_def)
  have c4: "?ips = [] \<Longrightarrow> ?hosts = [] \<Longrightarrow>
      getSimpleEndpoints (Some gw) hostname currentEndpoints h = Some ([], h)"
    using run by (simp add: simpleEmissions_def)
  show ?thesis
    unfolding Let_def using c1 c2 c3 c4 unfolding recs by blast
qed

theorem getSimpleEndpoints_records_witness:
  "noNilType sampleGateway \<and>
   getSimpleEndpoints (Some sampleGateway) ''www.example.com'' Map.empty []
     = Some ([0],
             [\<lparr>DNSName = ''www.example.com'', Targets = [''192.0.2.1'', ''192.0.2.2''],
               RecordType = ''A'', SetIdentifier = [], RecordTTL = 60, EndpointLabels = [],
               ProviderSpecific = []\<rparr>]) \<and>
   noNilType oneIPGateway \<and>
   getSimpleEndpoints (Some oneIPGateway) ''www.example.com'' [''www.example.com'' \<mapsto> 0]
       [checkedRecord]
     = Some ([0], [checkedRecord\<lparr>Targets := [''192.0.2.1'']\<rparr>]) \<and>
   noNilType unlabelledGateway \<and>
   getSimpleEndpoints (Some unlabelledGateway) ''www.example.com'' [''www.example.com'' \<mapsto> 0]
       [checkedRecord]
     = Some ([0], [checkedRecord\<lparr>RecordType := ''CNAME'', Targets := [''elb.test'']\<rparr>]) \<and>
   noNilType (oneIPGateway\<lparr>Addresses := []\<rparr>) \<and>
   getSimpleEndpoints (Some (oneIPGateway\<lparr>Addresses := []\<rparr>)) ''www.example.com''
       [''www.example.com'' \<mapsto> 0] [checkedRecord]
     = Some ([], [checkedRecord])"
proof -
  have a: "noNilType sampleGateway" and b: "noNilType oneIPGateway"
    and c: "noNilType unlabelledGateway" and d: "noNilType (oneIPGateway\<lparr>Addresses := []\<rparr>)"
    by (simp_all add: noNilType_def sampleGateway_def oneIPGateway_def unlabelledGateway_def)
  show ?thesis
    using getSimpleEndpoints_records [OF a, of "''www.example.com''" Map.empty "[]"]
      getSimpleEndpoints_records [OF b, of "''www.example.com''" "[''www.example.com'' \<mapsto> 0]"
        "[checkedRecord]"]
      getSimpleEndpoints_records [OF c, of "''www.example.com''" "[''www.example.com'' \<mapsto> 0]"
        "[checkedRecord]"]
      getSimpleEndpoints_records [OF d, of "''www.example.com''" "[''www.example.com'' \<mapsto> 0]"
        "[checkedRecord]"] a b c d
    by (simp add: Let_def ipValuesOf_def hostValuesOf_def sampleGateway_def oneIPGateway_def
        unlabelledGateway_def IPAddressType_def ARecordType_def CNAMERecordType_def
        checkedRecord_def)
qed

text \<open>
  Claim C4 as stated fails: when the previous records hold a record under the key of the
  hostname, that record is reused and keeps the property that a health check attached to
  it, so the emitted record has a provider-specific property.
\<close>

theorem getSimpleEndpoints_records_counterexample:
  "GenerateEndpoints sampleLib (Some oneIPGateway) (Some \<lparr>Endpoints = [Some 0]\<rparr>)
       \<lparr>Hostname = Some ''www.example.com''\<rparr>
       (Some (sampleRouting\<lparr>Strategy := SimpleRoutingStrategy\<rparr>)) [checkedRecord]
     = Return [0] None
         [\<lparr>DNSName = ''www.example.com'', Targets = [''192.0.2.1''], RecordType = ''A'',
           SetIdentifier = [], RecordTTL = 60, EndpointLabels = [],
           ProviderSpecific = [(''health-check-id'', ''42'')]\<rparr>]"
  by code_simp

subsection \<open>The records of the load-balanced strategy\<close>


lemma addresses_Nil_iff:
  "ipValuesOf addresses = [] \<and> hostValuesOf addresses = [] \<longleftrightarrow> addresses = []"
  by (cases addresses) (auto simp: ipValuesOf_def hostValuesOf_def)

lemma lbEmissions_keys:
  assumes "ce (lbNameOf L hostname @ getGeoFromLabel gw) = None"
    and "getGeoFromLabel gw = DefaultGeoCode r \<longrightarrow> ce (lbNameOf L hostname @ ''default'') = None"
    and "ce hostname = None"
  shows "\<forall>e \<in> set (lbEmissions L gw r hostname). ce (eKey e) = None"
  using assms by (auto simp: lbEmissions_def eKey_def)

lemma lbEmissions_records:
  "map freshRecord (lbEmissions L gw r hostname) =
     [\<lparr>DNSName = lbNameOf L hostname, Targets = [geoLbNameOf L gw hostname],
       RecordType = CNAMERecordType, SetIdentifier = getGeoFromLabel gw, RecordTTL = 300,
       EndpointLabels = [],
       ProviderSpecific = (if getGeoFromLabel gw = DefaultGeo then []
                           else [(ProviderSpecificGeoCode, getGeoFromLabel gw)])\<rparr>]
     @ (if getGeoFromLabel gw = DefaultGeoCode r
        then [\<lparr>DNSName = lbNameOf L hostname, Targets = [geoLbNameOf L gw hostname],
               RecordType = CNAMERecordType, SetIdentifier = ''default'', RecordTTL = 300,
               EndpointLabels = [], ProviderSpecific = [(ProviderSpecificGeoCode, ''*'')]\<rparr>]
        else [])
     @ [\<lparr>DNSName = hostname, Targets = [lbNameOf L hostname], RecordType = CNAMERecordType,
         SetIdentifier = [], RecordTTL = 300, EndpointLabels = [], ProviderSpecific = []\<rparr>]"
  by (simp add: lbEmissions_def freshRecord_def DefaultCnameTTL_def WildcardGeo_def)

text \<open>
  Claim C5, amended. Under the load-balanced strategy, for a gateway without a nil address
  type, the cluster and weight records are none exactly when the gateway has no address,
  and then nothing is returned and nothing written. Otherwise, when no previous record is
  held under the keys of the three records below, the call allocates after the cluster
  and weight records exactly: one CNAME record named \<open>lbName\<close> with the geo code for set
  identifier, \<open>geoLbName\<close> for target, TTL 300 and the property \<open>geo-code\<close> set to the geo
  code, or no property when the geo code is the sentinel \<open>default\<close>; then, if and only if
  the geo code is the default geo code of the routing, one CNAME record named \<open>lbName\<close>
  with set identifier \<open>default\<close>, the same target, TTL 300 and the property \<open>geo-code\<close>
  set to \<open>*\<close>; then one CNAME record named with the hostname, with \<open>lbName\<close> for target,
  TTL 300, no set identifier and no property.
\<close>

theorem getLoadBalancedEndpoints_lbRecords:
  assumes "noNilType gw"
  shows
    "(let lbName = lbNameOf L hostname;
          geoCode = getGeoFromLabel gw;
          geoLbName = geoLbNameOf L gw hostname;
          (geoEndpoints, h1) =
             geoLayer L gw r hostname currentEndpoints (ipValuesOf (Addresses gw))
               (hostValuesOf (Addresses gw)) h;
          records =
            [\<lparr>DNSName = lbName, Targets = [geoLbName], RecordType = CNAMERecordType,
              SetIdentifier = geoCode, RecordTTL = 300, EndpointLabels = [],
              ProviderSpecific = (if geoCode = DefaultGeo then []
                                  else [(ProviderSpecificGeoCode, geoCode)])\<rparr>]
            @ (if geoCode = DefaultGeoCode r
               then [\<lparr>DNSName = lbName, Targets = [geoLbName], RecordType = CNAMERecordType,
                      SetIdentifier = ''default'', RecordTTL = 300, EndpointLabels = [],
                      ProviderSpecific = [(ProviderSpecificGeoCode, ''*'')]\<rparr>]
               else [])
            @ [\<lparr>DNSName = hostname, Targets = [lbName], RecordType = CNAMERecordType,
                SetIdentifier = [], RecordTTL = 300, EndpointLabels = [], ProviderSpecific = []\<rparr>]
      in (geoEndpoints = [] \<longleftrightarrow> Addresses gw = [])
         \<and> (Addresses gw = [] \<longrightarrow>
               getLoadBalancedEndpoints L (Some gw) r hostname currentEndpoints h = Some ([], h))
         \<and> (Addresses gw \<noteq> [] \<and> currentEndpoints (lbName @ geoCode) = None
               \<and> (geoCode = DefaultGeoCode r \<longrightarrow> currentEndpoints (lbName @ ''default'') = None)
               \<and> currentEndpoints hostname = None \<longrightarrow>
               getLoadBalancedEndpoints L (Some gw) r hostname currentEndpoints h
                 = Some (geoEndpoints @ [length h1 ..< length h1 + length records], h1 @ records)))"
proof -
  let ?ips = "ipValuesOf (Addresses gw)" and ?hosts = "hostValuesOf (Addresses gw)"
  obtain geps h1 where geo: "geoLayer L gw r hostname currentEndpoints ?ips ?hosts h = (geps, h1)"
    by (cases "geoLayer L gw r hostname currentEndpoints ?ips ?hosts h")
  then have geo': "emitAll currentEndpoints (geoEmissions L gw r hostname ?ips ?hosts) [] h = (geps, h1)"
    by (simp add: geoLayer_emitAll)
  have nil: "geps = [] \<longleftrightarrow> Addresses gw = []"
    using emitAll_Nil_iff [of currentEndpoints "geoEmissions L gw r hostname ?ips ?hosts" h] geo'
    by (simp add: geoEmissions_Nil_iff addresses_Nil_iff)
  have run: "getLoadBalancedEndpoints L (Some gw) r hostname currentEndpoints h
      = Some (emitAll currentEndpoints (loadBalancedEmissions L gw r hostname ?ips ?hosts) [] h)"
    using assms by (simp add: getLoadBalancedEndpoints_emitAll addressLoop_eq noNilType_def)
  have none: "Addresses gw = [] \<Longrightarrow>
      getLoadBalancedEndpoints L (Some gw) r hostname currentEndpoints h = Some ([], h)"
    using run by (simp add: loadBalancedEmissions_def ipValuesOf_def hostValuesOf_def)
  have some: "getLoadBalancedEndpoints L (Some gw) r hostname currentEndpoints h
        = Some (geps @ [length h1 ..< length h1 + length (map freshRecord (lbEmissions L gw r hostname))],
                h1 @ map freshRecord (lbEmissions L gw r hostname))"
    if "Addresses gw \<noteq> []"
      and "currentEndpoints (lbNameOf L hostname @ getGeoFromLabel gw) = None"
      and "getGeoFromLabel gw = DefaultGeoCode r
             \<longrightarrow> currentEndpoints (lbNameOf L hostname @ ''default'') = None"
      and "currentEndpoints hostname = None"
  proof -
    have "loadBalancedEmissions L gw r hostname ?ips ?hosts
        = geoEmissions L gw r hostname ?ips ?hosts @ lbEmissions L gw r hostname"
      using that(1) addresses_Nil_iff [of "Addresses gw"] by (auto simp: loadBalancedEmissions_def)
    then have "emitAll currentEndpoints (loadBalancedEmissions L gw r hostname ?ips ?hosts) [] h
        = emitAll currentEndpoints (lbEmissions L gw r hostname) geps h1"
      using geo' by (simp add: emitAll_append)
    also have "\<dots> = (geps @ [length h1 ..< length h1 + length (lbEmissions L gw r hostname)],
                     h1 @ map freshRecord (lbEmissions L gw r hostname))"
      by (rule emitAll_fresh) (rule lbEmissions_keys [OF that(2,3,4)])
    finally show ?thesis using run by simp
  qed
  show ?thesis
    unfolding Let_def geo prod.case using nil none some unfolding lbEmissions_records by blast
qed


theorem getLoadBalancedEndpoints_lbRecords_witness:
  "noNilType sampleGateway \<and>
   getLoadBalancedEndpoints sampleLib (Some sampleGateway) sampleRouting ''*.Ex.io'' Map.empty []
     = Some ([0, 1, 2, 3, 4], sampleRecords) \<and>
   noNilType (sampleGateway\<lparr>Addresses := []\<rparr>) \<and>
   getLoadBalancedEndpoints sampleLib (Some (sampleGateway\<lparr>Addresses := []\<rparr>)) sampleRouting
       ''*.Ex.io'' Map.empty [checkedRecord]
     = Some ([], [checkedRecord])"
proof -
  have a: "noNilType sampleGateway" and b: "noNilType (sampleGateway\<lparr>Addresses := []\<rparr>)"
    by (simp_all add: noNilType_def sampleGateway_def)
  have geo: "geoLayer sampleLib sampleGateway sampleRouting ''*.Ex.io'' Map.empty
      (ipValuesOf (Addresses sampleGateway)) (hostValuesOf (Addresses sampleGateway)) []
      = ([0, 1], take 2 sampleRecords)"
    by code_simp
  have names: "lbNameOf sampleLib ''*.Ex.io'' = ''klb.ex.io''"
    "getGeoFromLabel sampleGateway = ''IE''"
    "geoLbNameOf sampleLib sampleGateway ''*.Ex.io'' = ''ie.klb.ex.io''"
    by code_simp+
  have c: "Addresses sampleGateway \<noteq> []" "DefaultGeoCode sampleRouting = ''IE''"
    by (simp_all add: sampleGateway_def sampleRouting_def)
  show ?thesis
    using getLoadBalancedEndpoints_lbRecords [OF a, of sampleLib "''*.Ex.io''" sampleRouting
        Map.empty "[]"]
      getLoadBalancedEndpoints_lbRecords [OF b, of sampleLib "''*.Ex.io''" sampleRouting
        Map.empty "[checkedRecord]"] a b c
    unfolding Let_def geo names prod.case
    by (auto simp: sampleRecords_def DefaultGeo_def CNAMERecordType_def
        ProviderSpecificGeoCode_def split: prod.splits)
qed

text \<open>
  Claim C5 as stated fails: the gateway has lost its geo label, so the geo code is the
  sentinel \<open>default\<close>, and the previous records hold the record of the default geo under
  the key of \<open>klb.ex.io\<close> and \<open>default\<close>. That record is reused for the geo code and keeps
  its property \<open>geo-code\<close>, although the geo code is the sentinel.
\<close>

theorem getLoadBalancedEndpoints_lbRecords_counterexample:
  "getGeoFromLabel unlabelledGateway = DefaultGeo \<and>
   GenerateEndpoints sampleLib (Some unlabelledGateway) (Some \<lparr>Endpoints = [Some 0]\<rparr>)
       \<lparr>Hostname = Some ''*.Ex.io''\<rparr> (Some sampleRouting)
       [\<lparr>DNSName = ''klb.ex.io'', Targets = [''ie.klb.ex.io''], RecordType = ''CNAME'',
         SetIdentifier = ''default'', RecordTTL = 300, EndpointLabels = [],
         ProviderSpecific = [(''geo-code'', ''*'')]\<rparr>]
     = Return [2, 1, 0] None
         [\<lparr>DNSName = ''klb.ex.io'', Targets = [''default.klb.ex.io''], RecordType = ''CNAME'',
           SetIdentifier = ''default'', RecordTTL = 300, EndpointLabels = [],
           ProviderSpecific = [(''geo-code'', ''*'')]\<rparr>,
          \<lparr>DNSName = ''default.klb.ex.io'', Targets = [''elb.test''], RecordType = ''CNAME'',
           SetIdentifier = ''elb.test'', RecordTTL = 60, EndpointLabels = [],
           ProviderSpecific = [(''weight'', ''120'')]\<rparr>,
          \<lparr>DNSName = ''*.Ex.io'', Targets = [''klb.ex.io''], RecordType = ''CNAME'',
           SetIdentifier = [], RecordTTL = 300, EndpointLabels = [], ProviderSpecific = []\<rparr>]"
  by code_simp

lemma removeAllWildcards_id: "\<not> hasWildcardLabel s \<Longrightarrow> removeAllWildcards s = s"
  by (induction s rule: removeAllWildcards.induct) auto

lemma emit_written:
  assumes "heapInv ce n h" and "emit ce e h = (p, h1)"
  shows "p < length h1 \<and> DNSName (h1 ! p) = eName e \<and> Targets (h1 ! p) = eTargets e
       \<and> RecordType (h1 ! p) = eType e \<and> RecordTTL (h1 ! p) = eTTL e"
  using emit_cases [OF assms] assms(1)
  by (auto simp: heapInv_def written_def freshRecord_def)

lemma emitAll_last:
  assumes "heapInv ce n h" and "emitAll ce (es @ [e]) eps h = (eps', h')"
  shows "eps' \<noteq> [] \<and> last eps' < length h' \<and> DNSName (h' ! last eps') = eName e
       \<and> Targets (h' ! last eps') = eTargets e \<and> RecordType (h' ! last eps') = eType e
       \<and> RecordTTL (h' ! last eps') = eTTL e"
proof -
  obtain eps1 h1 where first: "emitAll ce es eps h = (eps1, h1)"
    by (cases "emitAll ce es eps h")
  obtain p h2 where e: "emit ce e h1 = (p, h2)" by (cases "emit ce e h1")
  have inv: "heapInv ce n h1" using emitAll_inv [OF assms(1) first, of "{}"] by simp
  have "eps' = eps1 @ [p]" and "h' = h2"
    using assms(2) first e by (simp_all add: emitAll_append)
  then show ?thesis using emit_written [OF inv e] by simp
qed

text \<open>
  Claim C9, amended. The name of the load balancer is the lower-cased \<open>klb.\<close> followed by
  the base name. For a hostname that does not start with \<open>*\<close> the base name is the
  hostname; for a hostname that is \<open>*.\<close> followed by a name without \<open>*.\<close> the base
  name is that name; for a hostname without any \<open>*.\<close> the base name is the hostname. When the
  gateway has an address, the record that the load-balanced strategy emits last has the
  hostname as given for its name, the name of the load balancer for its only target,
  type CNAME and TTL 300.
\<close>

theorem lbName_wildcard:
  "(\<not> isWildCardHost name \<longrightarrow> lbNameOf L name = ToLower L (''klb.'' @ name)) \<and>
   (\<not> hasWildcardLabel rest \<longrightarrow> lbNameOf L (''*.'' @ rest) = ToLower L (''klb.'' @ rest)) \<and>
   (\<not> hasWildcardLabel name \<longrightarrow> lbNameOf L name = ToLower L (''klb.'' @ name)) \<and>
   (noNilType gw \<and> Addresses gw \<noteq> [] \<and> (\<forall>k p. currentEndpoints k = Some p \<longrightarrow> p < length h) \<longrightarrow>
      (\<exists>eps h'. getLoadBalancedEndpoints L (Some gw) r hostname currentEndpoints h = Some (eps, h')
          \<and> eps \<noteq> [] \<and> last eps < length h'
          \<and> DNSName (h' ! last eps) = hostname
          \<and> Targets (h' ! last eps) = [lbNameOf L hostname]
          \<and> RecordType (h' ! last eps) = CNAMERecordType
          \<and> RecordTTL (h' ! last eps) = 300))"
proof -
  have a: "\<not> isWildCardHost name \<Longrightarrow> lbNameOf L name = ToLower L (''klb.'' @ name)"
    by (simp add: lbNameOf_def cnameHostOf_def)
  have b: "\<not> hasWildcardLabel rest \<Longrightarrow> lbNameOf L (''*.'' @ rest) = ToLower L (''klb.'' @ rest)"
    by (simp add: lbNameOf_def cnameHostOf_def removeAllWildcards_id)
  have c: "\<not> hasWildcardLabel name \<Longrightarrow> lbNameOf L name = ToLower L (''klb.'' @ name)"
    by (simp add: lbNameOf_def cnameHostOf_def removeAllWildcards_id)
  have d: "\<exists>eps h'. getLoadBalancedEndpoints L (Some gw) r hostname currentEndpoints h = Some (eps, h')
          \<and> eps \<noteq> [] \<and> last eps < length h'
          \<and> DNSName (h' ! last eps) = hostname
          \<and> Targets (h' ! last eps) = [lbNameOf L hostname]
          \<and> RecordType (h' ! last eps) = CNAMERecordType
          \<and> RecordTTL (h' ! last eps) = 300"
    if gw: "noNilType gw" and addr: "Addresses gw \<noteq> []"
      and ce: "\<forall>k p. currentEndpoints k = Some p \<longrightarrow> p < length h"
  proof -
    let ?ips = "ipValuesOf (Addresses gw)" and ?hosts = "hostValuesOf (Addresses gw)"
    let ?last = "\<lparr>eName = hostname, eTargets = [lbNameOf L hostname], eType = CNAMERecordType,
         eSetID = [], eTTL = DefaultCnameTTL, eProperty = None\<rparr>"
    have inv: "heapInv currentEndpoints (length h) h" using ce by (auto simp: heapInv_def)
    obtain es where es: "loadBalancedEmissions L gw r hostname ?ips ?hosts = es @ [?last]"
      using addr addresses_Nil_iff [of "Addresses gw"]
      by (auto simp: loadBalancedEmissions_def lbEmissions_def
          simp flip: append_assoc append_Cons)
    obtain eps h' where run:
      "emitAll currentEndpoints (loadBalancedEmissions L gw r hostname ?ips ?hosts) [] h = (eps, h')"
      by (cases "emitAll currentEndpoints (loadBalancedEmissions L gw r hostname ?ips ?hosts) [] h")
    have "getLoadBalancedEndpoints L (Some gw) r hostname currentEndpoints h = Some (eps, h')"
      using gw run by (simp add: getLoadBalancedEndpoints_emitAll addressLoop_eq noNilType_def)
    then show ?thesis
      using emitAll_last [OF inv run [unfolded es]] by (simp add: DefaultCnameTTL_def)
  qed
  show ?thesis using a b c d by blast
qed

theorem lbName_wildcard_witness:
  "lbNameOf sampleLib ''www.Ex.io'' = ''klb.www.ex.io'' \<and>
   lbNameOf sampleLib ''*.Ex.io'' = ''klb.ex.io'' \<and>
   (\<exists>eps h'. getLoadBalancedEndpoints sampleLib (Some sampleGateway) sampleRouting ''*.Ex.io''
                 Map.empty [] = Some (eps, h')
        \<and> DNSName (h' ! last eps) = ''*.Ex.io'' \<and> Targets (h' ! last eps) = [''klb.ex.io''])"
proof -
  have gw: "noNilType sampleGateway \<and> Addresses sampleGateway \<noteq> []"
    by (simp add: noNilType_def sampleGateway_def)
  have lower: "ToLower sampleLib ''klb.www.Ex.io'' = ''klb.www.ex.io''"
    "ToLower sampleLib ''klb.Ex.io'' = ''klb.ex.io''"
    by (simp_all add: sampleLib_def lowerChar_def)
  show ?thesis
    using lbName_wildcard [of "''www.Ex.io''" sampleLib "''Ex.io''" sampleGateway Map.empty "[]"
        sampleRouting "''*.Ex.io''"] gw lower
    by auto
qed

text \<open>
  Claim C9 as stated fails twice. The name of the load balancer is lower-cased, so it is
  not \<open>klb.\<close> followed by the base name when the hostname has an upper-case letter. And
  for a hostname that starts with \<open>*\<close> every \<open>*.\<close> is removed, not the leading one only.
\<close>

theorem lbName_wildcard_counterexample:
  "lbNameOf sampleLib ''WWW.Ex.io'' = ''klb.www.ex.io'' \<and>
   ''klb.www.ex.io'' \<noteq> ''klb.'' @ ''WWW.Ex.io'' \<and>
   lbNameOf sampleLib ''*.a.*.b'' = ''klb.a.b'' \<and>
   ''klb.a.b'' \<noteq> ''klb.'' @ ''a.*.b''"
  by (simp add: lbNameOf_def cnameHostOf_def sampleLib_def lowerChar_def)

subsection \<open>The record behind a returned pointer\<close>

lemma reusedValue_Nil: "reusedValue ce h [] p = h ! p"
  by (simp add: reusedValue_def)

lemma reusedValue_Cons_other:
  "ce (eKey e) \<noteq> Some p \<Longrightarrow> reusedValue ce h (e # es) p = reusedValue ce h es p"
  by (simp add: reusedValue_def)

lemma reusedValue_Cons_hit:
  "ce (eKey e) = Some p \<Longrightarrow> h1 ! p = written e (h ! p) \<Longrightarrow>
   reusedValue ce h (e # es) p = reusedValue ce h1 es p"
  by (simp add: reusedValue_def)

lemma reusedValue_cong:
  "h1 ! p = h ! p \<Longrightarrow> reusedValue ce h1 es p = reusedValue ce h es p"
  by (simp add: reusedValue_def)

lemma emitAll_reusedValue:
  assumes "heapInv ce n h" and "emitAll ce es eps h = (eps', h')" and "p < n"
  shows "h' ! p = reusedValue ce h es p"
  using assms
proof (induction es arbitrary: eps h)
  case Nil
  then show ?case by (simp add: reusedValue_Nil)
next
  case (Cons e es)
  obtain q h1 where e: "emit ce e h = (q, h1)" by (cases "emit ce e h")
  with Cons.prems have rest: "emitAll ce es (eps @ [q]) h1 = (eps', h')" by simp
  have inv1: "heapInv ce n h1" by (rule emit_inv [OF Cons.prems(1) e])
  have ih: "h' ! p = reusedValue ce h1 es p" by (rule Cons.IH [OF inv1 rest Cons.prems(3)])
  have ph: "p < length h" using Cons.prems(1,3) by (simp add: heapInv_def)
  from emit_cases [OF Cons.prems(1) e]
  show ?case
  proof
    assume hit: "ce (eKey e) = Some q \<and> q < n \<and> h1 = h[q := written e (h ! q)]"
    show ?thesis
    proof (cases "p = q")
      case True
      have "h1 ! p = written e (h ! p)" using hit True ph by simp
      then have "reusedValue ce h (e # es) p = reusedValue ce h1 es p"
        using hit True by (intro reusedValue_Cons_hit) simp_all
      then show ?thesis using ih by simp
    next
      case False
      have "ce (eKey e) \<noteq> Some p" using hit False by simp
      moreover have "h1 ! p = h ! p" using hit False by simp
      ultimately show ?thesis using ih reusedValue_cong [of h1 p h ce es]
        by (simp add: reusedValue_Cons_other)
    qed
  next
    assume miss: "ce (eKey e) = None \<and> q = length h \<and> h1 = h @ [freshRecord e]"
    have "h1 ! p = h ! p" using miss ph by (simp add: nth_append)
    moreover have "ce (eKey e) \<noteq> Some p" using miss by simp
    ultimately show ?thesis using ih reusedValue_cong [of h1 p h ce es]
      by (simp add: reusedValue_Cons_other)
  qed
qed

lemma pointsTo_mono: "pointsTo ce m h' e p \<Longrightarrow> m' \<le> m \<Longrightarrow> pointsTo ce m' h' e p"
  by (auto simp: pointsTo_def split: option.splits)

lemma emitAll_pointsTo:
  assumes "heapInv ce n h" and "emitAll ce es eps h = (eps', h')"
  shows "\<exists>ps. eps' = eps @ ps \<and> list_all2 (pointsTo ce (length h) h') es ps"
  using assms
proof (induction es arbitrary: eps h)
  case Nil
  then show ?case by simp
next
  case (Cons e es)
  obtain q h1 where e: "emit ce e h = (q, h1)" by (cases "emit ce e h")
  with Cons.prems have rest: "emitAll ce es (eps @ [q]) h1 = (eps', h')" by simp
  have inv1: "heapInv ce n h1" by (rule emit_inv [OF Cons.prems(1) e])
  from Cons.IH [OF inv1 rest] obtain ps where
    ps: "eps' = (eps @ [q]) @ ps" "list_all2 (pointsTo ce (length h1) h') es ps"
    by blast
  note rest_inv = emitAll_inv [OF inv1 rest, of "{}"]
  have len: "length h \<le> length h1" by (rule emit_frame(1) [OF Cons.prems(1) e])
  have tail: "list_all2 (pointsTo ce (length h) h') es ps"
    using ps(2) len by (auto elim!: list_all2_mono intro: pointsTo_mono)
  have head: "pointsTo ce (length h) h' e q"
  proof (cases "ce (eKey e)")
    case None
    then have q: "q = length h" "h1 = h @ [freshRecord e]"
      using emit_cases [OF Cons.prems(1) e] by auto
    have n: "n \<le> length h" using Cons.prems(1) by (simp add: heapInv_def)
    have "q < length h1" using q by simp
    moreover have "\<forall>e' \<in> set es. ce (eKey e') \<noteq> Some q"
      using Cons.prems(1) q(1) n by (fastforce simp: heapInv_def)
    ultimately have "h' ! q = h1 ! q" using rest_inv by blast
    then have "h' ! q = freshRecord e" using q by simp
    moreover have "q < length h'" using rest_inv \<open>q < length h1\<close> by simp
    ultimately show ?thesis using None q(1) by (simp add: pointsTo_def)
  next
    case (Some p)
    then have "q = p" using emit_cases [OF Cons.prems(1) e] by auto
    then show ?thesis using Some by (simp add: pointsTo_def)
  qed
  have "eps' = eps @ (q # ps)" using ps(1) by simp
  moreover have "list_all2 (pointsTo ce (length h) h') (e # es) (q # ps)"
    using head tail by simp
  ultimately show ?case by blast
qed

lemma list_all2_map_eq:
  "list_all2 (\<lambda>x y. f y = g x) xs ys \<Longrightarrow> map f ys = map g xs"
  by (induction xs ys rule: list_all2_induct) simp_all

lemma emitAll_records:
  assumes "heapInv ce n h" and "emitAll ce es [] h = (ps, h')"
  shows "map (\<lambda>p. h' ! p) ps = map (valueOf ce h es) es"
proof -
  from emitAll_pointsTo [OF assms] have ps: "list_all2 (pointsTo ce (length h) h') es ps"
    by simp
  have "list_all2 (\<lambda>e p. h' ! p = valueOf ce h es e) es ps"
  proof (rule list_all2_mono [OF ps])
    fix e p assume pt: "pointsTo ce (length h) h' e p"
    show "h' ! p = valueOf ce h es e"
    proof (cases "ce (eKey e)")
      case None
      then show ?thesis using pt by (simp add: pointsTo_def valueOf_def)
    next
      case (Some p')
      then have "p' < n" using assms(1) by (auto simp: heapInv_def)
      then have "h' ! p' = reusedValue ce h es p'" by (rule emitAll_reusedValue [OF assms])
      then show ?thesis using pt Some by (simp add: pointsTo_def valueOf_def)
    qed
  qed
  then show ?thesis
    using list_all2_map_eq [of "\<lambda>p. h' ! p" "valueOf ce h es" es ps] by simp
qed

lemma currentEndpointsLoop_lastWithKey:
  "currentEndpointsLoop h previous m = Some ce \<Longrightarrow>
   ce k = (case lastWithKey h previous k of Some q \<Rightarrow> Some q | None \<Rightarrow> m k)"
proof (induction previous arbitrary: m)
  case Nil
  then show ?case by simp
next
  case (Cons x xs)
  then show ?case by (auto split: option.splits if_splits)
qed

lemma map_of_setProperty: "map_of (setProperty k v ps) k = Some v"
  by (induction ps) auto

lemma foldl_written_last:
  "es \<noteq> [] \<Longrightarrow>
   foldl (\<lambda>a e. written e a) a es = written (last es) (foldl (\<lambda>a e. written e a) a (butlast es))"
  by (induction es rule: rev_induct) simp_all

lemma written_fields:
  "DNSName (written e a) = eName e" "RecordType (written e a) = eType e"
  "Targets (written e a) = eTargets e" "RecordTTL (written e a) = eTTL e"
  "eProperty e = Some (k, v) \<Longrightarrow> map_of (ProviderSpecific (written e a)) k = Some v"
  by (simp_all add: written_def map_of_setProperty)

subsection \<open>Reuse of the previous records\<close>


lemma emitAll_reused:
  assumes "heapInv ce n h" and "emitAll ce es eps h = (eps', h')"
    and "e \<in> set es" and "ce (eKey e) = Some p"
  shows "p \<in> set eps'"
  using assms
proof (induction es arbitrary: eps h)
  case Nil
  then show ?case by simp
next
  case (Cons a es)
  obtain q h1 where a: "emit ce a h = (q, h1)" by (cases "emit ce a h")
  with Cons.prems have rest: "emitAll ce es (eps @ [q]) h1 = (eps', h')" by simp
  have inv1: "heapInv ce n h1" by (rule emit_inv [OF Cons.prems(1) a])
  show ?case
  proof (cases "e = a")
    case True
    then have "q = p" using emit_cases [OF Cons.prems(1) a] Cons.prems(4) by auto
    moreover have "set (eps @ [q]) \<subseteq> set eps'"
      using emitAll_inv [OF inv1 rest, of "{}"] by auto
    ultimately show ?thesis by auto
  next
    case False
    then have "e \<in> set es" using Cons.prems(3) by simp
    then show ?thesis using Cons.IH [OF inv1 rest] Cons.prems(4) by simp
  qed
qed

lemma emissionsOf_propertyIn:
  "\<forall>e \<in> set (emissionsOf L gw r host).
     propertyIn {ProviderSpecificWeight, ProviderSpecificGeoCode} e"
  by (auto simp: emissionsOf_def simpleEmissions_def loadBalancedEmissions_def geoEmissions_def
      lbEmissions_def weightEmission_def propertyIn_def split: if_splits)

lemma simpleEmissions_propertyIn:
  "\<forall>e \<in> set (simpleEmissions host ips hosts). propertyIn {} e"
  by (auto simp: simpleEmissions_def propertyIn_def split: if_splits)

lemma sameOtherFields_empty:
  "sameOtherFields {} a b \<Longrightarrow> ProviderSpecific b = ProviderSpecific a"
  by (simp add: sameOtherFields_def otherProperties_def)

text \<open>
  Claim C1, amended. Take a call of \<open>GenerateEndpoints\<close> that returns without an error.
  The returned slice holds, in the order of the keys, one pointer for each record that
  the synthesis emits. When a previous record has the key (the name followed by the set
  identifier) of the emitted record, the pointer is that of the last previous record with
  that key: the record is reused, not allocated. It ends as it was before the call with
  the writes of every emission with that key applied in turn, and a write sets the name,
  the type, the targets and the TTL and, for an emission with a property (\<open>weight\<close> or
  \<open>geo-code\<close>), that property; so the name, the type, the targets and the TTL of the reused
  record are those of the last emission with its key, and the property of that emission
  has the value that the emission gives it. When no previous record has the key, the
  pointer leads to a cell allocated by the call, which holds the emitted record and
  nothing else. A returned record that is a previous record keeps its set identifier,
  its labels and its provider-specific properties other than \<open>weight\<close> and \<open>geo-code\<close>;
  under the simple strategy it keeps all of its provider-specific properties. A returned
  record that is freshly allocated has a key that no previous record has. The previous
  records that are not returned are unchanged.
\<close>

theorem GenerateEndpoints_identity:
  assumes "GenerateEndpoints L (Some gw) (Some dnsr) listener (Some r) h = Return eps None h'"
    and "Hostname listener = Some host"
  shows
    "(\<exists>ps. mset ps = mset eps \<and>
        list_all2
          (\<lambda>e p. case lastWithKey h (Endpoints dnsr) (eKey e) of
                    Some q \<Rightarrow>
                      p = q \<and> q < length h
                      \<and> h' ! q = foldl (\<lambda>a e'. written e' a) (h ! q)
                                   (emissionsAt (emissionsOf L gw r host) (eKey e))
                  | None \<Rightarrow> length h \<le> p \<and> p < length h' \<and> h' ! p = freshRecord e)
          (emissionsOf L gw r host) ps)
     \<and> (\<forall>e \<in> set (emissionsOf L gw r host). \<forall>q.
           lastWithKey h (Endpoints dnsr) (eKey e) = Some q \<longrightarrow>
           q \<in> set eps
           \<and> DNSName (h' ! q) = eName (last (emissionsAt (emissionsOf L gw r host) (eKey e)))
           \<and> RecordType (h' ! q) = eType (last (emissionsAt (emissionsOf L gw r host) (eKey e)))
           \<and> Targets (h' ! q) = eTargets (last (emissionsAt (emissionsOf L gw r host) (eKey e)))
           \<and> RecordTTL (h' ! q) = eTTL (last (emissionsAt (emissionsOf L gw r host) (eKey e)))
           \<and> (\<forall>k v. eProperty (last (emissionsAt (emissionsOf L gw r host) (eKey e))) = Some (k, v)
                  \<longrightarrow> map_of (ProviderSpecific (h' ! q)) k = Some v))
     \<and> (\<forall>p \<in> set eps. p < length h \<longrightarrow>
           Some p \<in> set (Endpoints dnsr)
           \<and> sameOtherFields {ProviderSpecificWeight, ProviderSpecificGeoCode} (h ! p) (h' ! p)
           \<and> (Strategy r = SimpleRoutingStrategy \<longrightarrow>
                ProviderSpecific (h' ! p) = ProviderSpecific (h ! p)))
     \<and> (\<forall>p \<in> set eps. length h \<le> p \<longrightarrow>
           p < length h'
           \<and> (\<forall>q. Some q \<in> set (Endpoints dnsr) \<longrightarrow> getSetID (h ! q) \<noteq> getSetID (h' ! p)))
     \<and> (\<forall>q < length h. q \<notin> set eps \<longrightarrow> h' ! q = h ! q)"
  using assms(1)
proof (rule GenerateEndpoints_success)
  fix host' dnsr' ce r' gw' ps
  assume host': "Hostname listener = Some host'" and "Some dnsr = Some dnsr'"
    and ce: "currentEndpointsLoop h (Endpoints dnsr') Map.empty = Some ce"
    and "Some r = Some r'" and "Some gw = Some gw'"
    and run': "emitAll ce (emissionsOf L gw' r' host') [] h = (ps, h')"
    and eps: "eps = sortSlice L h' ps"
  then have ce: "currentEndpointsLoop h (Endpoints dnsr) Map.empty = Some ce"
    and run: "emitAll ce (emissionsOf L gw r host) [] h = (ps, h')"
    using assms(2) by simp_all
  let ?es = "emissionsOf L gw r host"
  note loop = currentEndpointsLoop_Some [OF ce]
  have last_held: "ce k = lastWithKey h (Endpoints dnsr) k" for k
    using currentEndpointsLoop_lastWithKey [OF ce, of k] by (simp split: option.splits)
  have inv: "heapInv ce (length h) h" by (rule currentEndpointsLoop_heapInv [OF ce])
  have mset_eps: "mset ps = mset eps" using eps by (simp add: sortSlice_sorts(2))
  then have set_eps: "set eps = set ps" by (metis set_mset_mset)
  note all = emitAll_inv [OF inv run]
  have inv': "heapInv ce (length h) h'" using all [of "{}"] by simp
  have ps: "\<forall>p \<in> set ps. p < length h' \<and> (p < length h \<longrightarrow> (\<exists>e \<in> set ?es. ce (eKey e) = Some p))"
    using all [of "{}"] by auto
  have held: "ce k = Some p \<Longrightarrow> p < length h \<and> Some p \<in> set (Endpoints dnsr) \<and> getSetID (h ! p) = k"
    for k p using loop by auto
  have content: "h' ! q = foldl (\<lambda>a e'. written e' a) (h ! q) (emissionsAt ?es (eKey e))"
    if q: "ce (eKey e) = Some q" for e q
  proof -
    have "q < length h" using held [OF q] by simp
    then have "h' ! q = reusedValue ce h ?es q" by (rule emitAll_reusedValue [OF inv run])
    moreover have "filter (\<lambda>e'. ce (eKey e') = Some q) ?es = filter (\<lambda>e'. eKey e' = eKey e) ?es"
    proof (rule filter_cong [OF refl])
      fix x
      show "(ce (eKey x) = Some q) = (eKey x = eKey e)"
      proof
        assume "ce (eKey x) = Some q"
        then have "getSetID (h ! q) = eKey x" using held by blast
        moreover have "getSetID (h ! q) = eKey e" using held [OF q] by simp
        ultimately show "eKey x = eKey e" by simp
      next
        assume "eKey x = eKey e"
        then show "ce (eKey x) = Some q" using q by simp
      qed
    qed
    ultimately show ?thesis by (simp add: reusedValue_def emissionsAt_def)
  qed
  have pt: "list_all2 (pointsTo ce (length h) h') ?es ps"
    using emitAll_pointsTo [OF inv run] by simp
  have "list_all2
          (\<lambda>e p. case lastWithKey h (Endpoints dnsr) (eKey e) of
                    Some q \<Rightarrow>
                      p = q \<and> q < length h
                      \<and> h' ! q = foldl (\<lambda>a e'. written e' a) (h ! q) (emissionsAt ?es (eKey e))
                  | None \<Rightarrow> length h \<le> p \<and> p < length h' \<and> h' ! p = freshRecord e)
          ?es ps"
  proof (rule list_all2_mono [OF pt])
    fix e p assume p: "pointsTo ce (length h) h' e p"
    show "case lastWithKey h (Endpoints dnsr) (eKey e) of
            Some q \<Rightarrow>
              p = q \<and> q < length h
              \<and> h' ! q = foldl (\<lambda>a e'. written e' a) (h ! q) (emissionsAt ?es (eKey e))
          | None \<Rightarrow> length h \<le> p \<and> p < length h' \<and> h' ! p = freshRecord e"
    proof (cases "ce (eKey e)")
      case None
      then show ?thesis using p last_held [of "eKey e"] by (simp add: pointsTo_def)
    next
      case (Some q)
      then show ?thesis
        using p last_held [of "eKey e"] held [OF Some] content [OF Some] by (simp add: pointsTo_def)
    qed
  qed
  then have a: "\<exists>ps. mset ps = mset eps \<and>
        list_all2
          (\<lambda>e p. case lastWithKey h (Endpoints dnsr) (eKey e) of
                    Some q \<Rightarrow>
                      p = q \<and> q < length h
                      \<and> h' ! q = foldl (\<lambda>a e'. written e' a) (h ! q) (emissionsAt ?es (eKey e))
                  | None \<Rightarrow> length h \<le> p \<and> p < length h' \<and> h' ! p = freshRecord e)
          ?es ps"
    using mset_eps by blast
  have w: "q \<in> set eps
           \<and> DNSName (h' ! q) = eName (last (emissionsAt ?es (eKey e)))
           \<and> RecordType (h' ! q) = eType (last (emissionsAt ?es (eKey e)))
           \<and> Targets (h' ! q) = eTargets (last (emissionsAt ?es (eKey e)))
           \<and> RecordTTL (h' ! q) = eTTL (last (emissionsAt ?es (eKey e)))
           \<and> (\<forall>k v. eProperty (last (emissionsAt ?es (eKey e))) = Some (k, v)
                  \<longrightarrow> map_of (ProviderSpecific (h' ! q)) k = Some v)"
    if e: "e \<in> set ?es" and q: "lastWithKey h (Endpoints dnsr) (eKey e) = Some q" for e q
  proof -
    have c: "ce (eKey e) = Some q" using q last_held by simp
    have "q \<in> set ps" by (rule emitAll_reused [OF inv run e c])
    then have returned: "q \<in> set eps" using set_eps by simp
    have "e \<in> set (emissionsAt ?es (eKey e))" using e by (simp add: emissionsAt_def)
    then have "emissionsAt ?es (eKey e) \<noteq> []" by (metis empty_iff empty_set)
    then have "h' ! q = written (last (emissionsAt ?es (eKey e)))
                 (foldl (\<lambda>a e'. written e' a) (h ! q) (butlast (emissionsAt ?es (eKey e))))"
      using content [OF c] foldl_written_last [of "emissionsAt ?es (eKey e)" "h ! q"] by simp
    then show ?thesis using returned by (simp add: written_fields)
  qed
  have b: "Some p \<in> set (Endpoints dnsr)
           \<and> sameOtherFields {ProviderSpecificWeight, ProviderSpecificGeoCode} (h ! p) (h' ! p)
           \<and> (Strategy r = SimpleRoutingStrategy \<longrightarrow>
                ProviderSpecific (h' ! p) = ProviderSpecific (h ! p))"
    if p: "p \<in> set eps" "p < length h" for p
  proof -
    from ps p set_eps obtain e where "ce (eKey e) = Some p" by auto
    then have prev: "Some p \<in> set (Endpoints dnsr)" using held by simp
    have same: "sameOtherFields {ProviderSpecificWeight, ProviderSpecificGeoCode} (h ! p) (h' ! p)"
      using all [of "{ProviderSpecificWeight, ProviderSpecificGeoCode}"] p(2)
        emissionsOf_propertyIn [of L gw r host] by simp
    have "ProviderSpecific (h' ! p) = ProviderSpecific (h ! p)"
      if "Strategy r = SimpleRoutingStrategy"
    proof -
      have "\<forall>e \<in> set ?es. propertyIn {} e"
        using that simpleEmissions_propertyIn by (simp add: emissionsOf_def)
      then have "sameOtherFields {} (h ! p) (h' ! p)" using all [of "{}"] p(2) by simp
      then show ?thesis by (rule sameOtherFields_empty)
    qed
    then show ?thesis using prev same by simp
  qed
  have c: "p < length h' \<and> (\<forall>q. Some q \<in> set (Endpoints dnsr) \<longrightarrow> getSetID (h ! q) \<noteq> getSetID (h' ! p))"
    if p: "p \<in> set eps" "length h \<le> p" for p
  proof -
    have lt: "p < length h'" using ps p(1) set_eps by simp
    then have "ce (getSetID (h' ! p)) = None" using inv' p(2) by (simp add: heapInv_def)
    then show ?thesis using loop lt by metis
  qed
  have d: "h' ! q = h ! q" if q: "q < length h" "q \<notin> set eps" for q
  proof -
    have "\<forall>e \<in> set ?es. ce (eKey e) \<noteq> Some q"
      using emitAll_reused [OF inv run] q(2) set_eps by blast
    then show ?thesis using all [of "{}"] q(1) by simp
  qed
  show ?thesis using a w b c d by blast
qed

theorem GenerateEndpoints_identity_witness:
  "GenerateEndpoints sampleLib (Some hostGateway) (Some \<lparr>Endpoints = [Some 0, Some 1]\<rparr>)
       \<lparr>Hostname = Some ''*.Ex.io''\<rparr> (Some sampleRouting) [shadowedRecord, weightedRecord]
     = Return [4, 1, 2, 3] None
         [shadowedRecord,
          weightedRecord\<lparr>Targets := [''elb.test''], RecordType := ''CNAME'', RecordTTL := 60,
            ProviderSpecific := [(''health-check-id'', ''42''), (''weight'', ''120'')]\<rparr>,
          sampleRecords ! 2, sampleRecords ! 3, sampleRecords ! 4] \<and>
   lastWithKey [shadowedRecord, weightedRecord] [Some 0, Some 1] ''ie.klb.ex.ioelb.test'' = Some 1 \<and>
   Targets weightedRecord = [''old.test''] \<and>
   Targets
     (weightedRecord\<lparr>Targets := [''elb.test''], RecordType := ''CNAME'', RecordTTL := 60,
        ProviderSpecific := [(''health-check-id'', ''42''), (''weight'', ''120'')]\<rparr>)
     = eTargets (weightEmission sampleLib hostGateway sampleRouting ''*.Ex.io'' ''elb.test'') \<and>
   sameOtherFields {ProviderSpecificWeight, ProviderSpecificGeoCode} weightedRecord
     (weightedRecord\<lparr>Targets := [''elb.test''], RecordType := ''CNAME'', RecordTTL := 60,
        ProviderSpecific := [(''health-check-id'', ''42''), (''weight'', ''120'')]\<rparr>)"
proof -
  let ?e = "weightEmission sampleLib hostGateway sampleRouting ''*.Ex.io'' ''elb.test''"
  let ?es = "emissionsOf sampleLib hostGateway sampleRouting ''*.Ex.io''"
  have run: "GenerateEndpoints sampleLib (Some hostGateway) (Some \<lparr>Endpoints = [Some 0, Some 1]\<rparr>)
       \<lparr>Hostname = Some ''*.Ex.io''\<rparr> (Some sampleRouting) [shadowedRecord, weightedRecord]
     = Return [4, 1, 2, 3] None
         [shadowedRecord,
          weightedRecord\<lparr>Targets := [''elb.test''], RecordType := ''CNAME'', RecordTTL := 60,
            ProviderSpecific := [(''health-check-id'', ''42''), (''weight'', ''120'')]\<rparr>,
          sampleRecords ! 2, sampleRecords ! 3, sampleRecords ! 4]"
    by code_simp
  have host: "Hostname \<lparr>Hostname = Some ''*.Ex.io''\<rparr> = Some ''*.Ex.io''" by simp
  have e: "?e \<in> set ?es" by code_simp
  have key: "eKey ?e = ''ie.klb.ex.ioelb.test''" by code_simp
  have held: "lastWithKey [shadowedRecord, weightedRecord] [Some 0, Some 1] ''ie.klb.ex.ioelb.test'' = Some 1"
    by code_simp
  have latest: "last (emissionsAt ?es ''ie.klb.ex.ioelb.test'') = ?e" by code_simp
  have old: "Targets weightedRecord = [''old.test'']" by (simp add: weightedRecord_def)
  let ?h' = "[shadowedRecord,
               weightedRecord\<lparr>Targets := [''elb.test''], RecordType := ''CNAME'', RecordTTL := 60,
                 ProviderSpecific := [(''health-check-id'', ''42''), (''weight'', ''120'')]\<rparr>,
               sampleRecords ! 2, sampleRecords ! 3, sampleRecords ! 4]"
  note identity = GenerateEndpoints_identity [OF run host]
  have T: "\<forall>e \<in> set ?es. \<forall>q.
           lastWithKey [shadowedRecord, weightedRecord]
               (Endpoints \<lparr>Endpoints = [Some 0, Some 1]\<rparr>) (eKey e) = Some q \<longrightarrow>
           Targets (?h' ! q) = eTargets (last (emissionsAt ?es (eKey e)))"
    using identity by blast
  have S: "\<forall>p \<in> set [4, 1, 2, 3]. p < length [shadowedRecord, weightedRecord] \<longrightarrow>
           sameOtherFields {ProviderSpecificWeight, ProviderSpecificGeoCode}
             ([shadowedRecord, weightedRecord] ! p) (?h' ! p)"
    using identity by blast
  have t: "Targets (?h' ! 1) = eTargets ?e"
    using T [rule_format, OF e, of 1] key held latest by simp
  have s: "sameOtherFields {ProviderSpecificWeight, ProviderSpecificGeoCode}
             ([shadowedRecord, weightedRecord] ! 1) (?h' ! 1)"
    using S by simp
  show ?thesis using run held old t s by simp
qed

text \<open>
  Claim C1 as stated fails: under the load-balanced strategy the last previous record with
  the key of the weighted record is reused, and besides its type, its targets and its TTL
  its provider-specific property \<open>weight\<close> is written, from 100 to 120: a field other than
  the name, the type, the targets and the TTL is changed. Its label and its property
  \<open>health-check-id\<close> are kept, and the earlier previous record with the same key is left
  as it was.
\<close>

theorem GenerateEndpoints_identity_counterexample:
  "ProviderSpecific weightedRecord = [(''health-check-id'', ''42''), (''weight'', ''100'')] \<and>
   GenerateEndpoints sampleLib (Some hostGateway) (Some \<lparr>Endpoints = [Some 0, Some 1]\<rparr>)
       \<lparr>Hostname = Some ''*.Ex.io''\<rparr> (Some sampleRouting) [shadowedRecord, weightedRecord]
     = Return [4, 1, 2, 3] None
         [\<lparr>DNSName = ''ie.klb.ex.io'', Targets = [''older.test''], RecordType = ''A'',
           SetIdentifier = ''elb.test'', RecordTTL = 30, EndpointLabels = [(''owner'', ''team'')],
           ProviderSpecific = [(''health-check-id'', ''42''), (''weight'', ''100'')]\<rparr>,
          \<lparr>DNSName = ''ie.klb.ex.io'', Targets = [''elb.test''], RecordType = ''CNAME'',
           SetIdentifier = ''elb.test'', RecordTTL = 60, EndpointLabels = [(''owner'', ''team'')],
           ProviderSpecific = [(''health-check-id'', ''42''), (''weight'', ''120'')]\<rparr>,
          \<lparr>DNSName = ''klb.ex.io'', Targets = [''ie.klb.ex.io''], RecordType = ''CNAME'',
           SetIdentifier = ''IE'', RecordTTL = 300, EndpointLabels = [],
           ProviderSpecific = [(''geo-code'', ''IE'')]\<rparr>,
          \<lparr>DNSName = ''klb.ex.io'', Targets = [''ie.klb.ex.io''], RecordType = ''CNAME'',
           SetIdentifier = ''default'', RecordTTL = 300, EndpointLabels = [],
           ProviderSpecific = [(''geo-code'', ''*'')]\<rparr>,
          \<lparr>DNSName = ''*.Ex.io'', Targets = [''klb.ex.io''], RecordType = ''CNAME'',
           SetIdentifier = [], RecordTTL = 300, EndpointLabels = [], ProviderSpecific = []\<rparr>]"
  by code_simp

subsection \<open>Permuted inputs\<close>

lemma filter_insertByKey:
  "sorted (map (keyOf h) qs) \<Longrightarrow>
   filter (\<lambda>q. keyOf h q = k) (insertByKey h p qs)
     = filter (\<lambda>q. keyOf h q = k) qs @ (if keyOf h p = k then [p] else [])"
proof (induction qs)
  case Nil
  then show ?case by simp
next
  case (Cons q qs)
  show ?case
  proof (cases "getSetID (h ! p) < getSetID (h ! q)")
    case True
    have "\<forall>x \<in> set (q # qs). keyOf h p < keyOf h x"
      using Cons.prems True by (auto simp: keyOf_def)
    then have "keyOf h p = k \<Longrightarrow> filter (\<lambda>q. keyOf h q = k) (q # qs) = []"
      by (auto simp: filter_empty_conv)
    then show ?thesis using True by auto
  next
    case False
    then show ?thesis using Cons by simp
  qed
qed

lemma foldl_insertByKey_stable:
  "sorted (map (keyOf h) acc) \<Longrightarrow>
   filter (\<lambda>q. keyOf h q = k) (foldl (\<lambda>sorted_part p. insertByKey h p sorted_part) acc ps)
     = filter (\<lambda>q. keyOf h q = k) acc @ filter (\<lambda>q. keyOf h q = k) ps
   \<and> mset (foldl (\<lambda>sorted_part p. insertByKey h p sorted_part) acc ps) = mset acc + mset ps"
  by (induction ps arbitrary: acc)
     (simp_all add: sorted_insertByKey filter_insertByKey mset_insertByKey)

lemma insertionSort_sort_key: "insertionSort h ps = sort_key (keyOf h) ps"
proof (rule sym, rule properties_for_sort_key)
  show "mset (insertionSort h ps) = mset ps" by (rule insertionSort_props(2))
  show "sorted (map (keyOf h) (insertionSort h ps))" by (rule insertionSort_props(1))
  fix k
  have "filter (\<lambda>q. keyOf h q = keyOf h k) (insertionSort h ps) = filter (\<lambda>q. keyOf h q = keyOf h k) ps"
    using foldl_insertByKey_stable [of h "[]" "keyOf h k" ps] by (simp add: insertionSort_def)
  then show "filter (\<lambda>x. keyOf h k = keyOf h x) (insertionSort h ps) = filter (\<lambda>x. keyOf h k = keyOf h x) ps"
    by (simp add: eq_commute)
qed

lemma map_insort_key:
  "map g (insort_key (\<lambda>x. f (g x)) a xs) = insort_key f (g a) (map g xs)"
  by (induction xs) simp_all

lemma map_sort_key: "map g (sort_key (\<lambda>x. f (g x)) xs) = sort_key f (map g xs)"
  by (induction xs) (simp_all add: map_insort_key)

lemma filter_permuted_unique:
  assumes "mset ys' = mset ys" and "\<forall>a \<in> set ys. \<forall>b \<in> set ys. P a \<and> P b \<longrightarrow> a = b"
  shows "filter P ys' = filter P ys"
proof -
  have m: "mset (filter P ys') = mset (filter P ys)" using assms(1) by simp
  then have len: "length (filter P ys') = length (filter P ys)" by (metis size_mset)
  have sets: "set ys' = set ys" using assms(1) by (metis set_mset_mset)
  show ?thesis
  proof (cases "filter P ys")
    case Nil
    then show ?thesis using len by simp
  next
    case (Cons a as)
    then have "a \<in> set (filter P ys)" by simp
    then have a: "a \<in> set ys" "P a" by simp_all
    have "\<forall>y \<in> set (filter P ys). y = a" using assms(2) a by auto
    then have 1: "replicate (length (filter P ys)) a = filter P ys" by (rule replicate_length_same)
    have "\<forall>y \<in> set (filter P ys'). y = a" using assms(2) a sets by auto
    then have 2: "replicate (length (filter P ys')) a = filter P ys'" by (rule replicate_length_same)
    show ?thesis using 1 2 len by simp
  qed
qed

lemma sort_key_permuted_segment:
  assumes "mset ys' = mset ys" and "\<forall>a \<in> set ys. \<forall>b \<in> set ys. f a = f b \<longrightarrow> a = b"
  shows "sort_key f (xs @ ys' @ zs) = sort_key f (xs @ ys @ zs)"
proof (rule properties_for_sort_key)
  show "mset (sort_key f (xs @ ys @ zs)) = mset (xs @ ys' @ zs)" using assms(1) by simp
  show "sorted (map f (sort_key f (xs @ ys @ zs)))" by simp
  fix k
  have "filter (\<lambda>x. f k = f x) ys' = filter (\<lambda>x. f k = f x) ys"
    using assms by (intro filter_permuted_unique) auto
  moreover have "filter (\<lambda>x. f k = f x) (sort_key f (xs @ ys @ zs)) = filter (\<lambda>x. f k = f x) (xs @ ys @ zs)"
    using sort_key_stable [of f "f k" "xs @ ys @ zs"] by (simp add: eq_commute)
  ultimately show "filter (\<lambda>x. f k = f x) (sort_key f (xs @ ys @ zs)) = filter (\<lambda>x. f k = f x) (xs @ ys' @ zs)"
    by simp
qed

lemma sorted_distinct_sort_key:
  assumes "sorted (map f xs)" and "mset xs = mset ys" and "distinct (map f ys)"
  shows "xs = sort_key f ys"
proof (rule sym, rule properties_for_sort_key)
  show "mset xs = mset ys" by (rule assms(2))
  show "sorted (map f xs)" by (rule assms(1))
  fix k
  have "inj_on f (set ys)" using assms(3) by (simp add: distinct_map)
  then have "\<forall>a \<in> set ys. \<forall>b \<in> set ys. f k = f a \<and> f k = f b \<longrightarrow> a = b"
    by (auto dest: inj_onD)
  then show "filter (\<lambda>x. f k = f x) xs = filter (\<lambda>x. f k = f x) ys"
    by (rule filter_permuted_unique [OF assms(2)])
qed

text \<open>Where \<^verbatim>\<open>sort.Slice\<close> sorts by insertion, and where no two keys are equal, its result is
  that of the stable sort of the library of Isabelle.\<close>

lemma sortSlice_sort_key:
  assumes "length ps \<le> 12 \<or> distinct (map (keyOf h) ps)"
  shows "sortSlice L h ps = sort_key (keyOf h) ps"
proof (cases "length ps \<le> 12")
  case True
  then show ?thesis by (simp add: sortSlice_def insertionSort_sort_key)
next
  case False
  then have "distinct (map (keyOf h) ps)" using assms by simp
  then show ?thesis by (intro sorted_distinct_sort_key sortSlice_sorts)
qed

lemma sortSlice_records:
  assumes "length ps \<le> 12 \<or> distinct (map getSetID (map (\<lambda>p. h ! p) ps))"
  shows "map (\<lambda>p. h ! p) (sortSlice L h ps) = sort_key getSetID (map (\<lambda>p. h ! p) ps)"
proof -
  have "length ps \<le> 12 \<or> distinct (map (keyOf h) ps)"
    using assms by (simp add: keyOf_def [abs_def] comp_def)
  then show ?thesis
    using map_sort_key [of "\<lambda>p. h ! p" getSetID ps]
    by (simp add: sortSlice_sort_key keyOf_def [abs_def])
qed

lemma list_all2_insort_key:
  assumes "list_all2 R as bs" and "R a b" and "\<And>x y. R x y \<Longrightarrow> f x = f y"
  shows "list_all2 R (insort_key f a as) (insort_key f b bs)"
  using assms(1)
proof (induction as bs rule: list_all2_induct)
  case Nil
  then show ?case using assms(2) by simp
next
  case (Cons x xs y ys)
  then show ?case using assms(2) assms(3) [OF assms(2)] assms(3) [of x y] by simp
qed

lemma list_all2_sort_key:
  assumes "list_all2 R xs ys" and "\<And>x y. R x y \<Longrightarrow> f x = f y"
  shows "list_all2 R (sort_key f xs) (sort_key f ys)"
  using assms(1)
  by (induction xs ys rule: list_all2_induct) (simp_all add: list_all2_insort_key assms(2))

lemma sameEmission_eKey: "sameEmission e e' \<Longrightarrow> eKey e = eKey e'"
  by (simp add: sameEmission_def eKey_def)

lemma sameButTargets_getSetID: "sameButTargets a b \<Longrightarrow> getSetID a = getSetID b"
  by (simp add: sameButTargets_def getSetID_def)

lemma sameButTargets_refl: "sameButTargets a a"
  by (simp add: sameButTargets_def)

lemma sameButTargets_written:
  "sameButTargets a b \<Longrightarrow> sameEmission e e' \<Longrightarrow> sameButTargets (written e a) (written e' b)"
  by (auto simp: sameButTargets_def sameEmission_def written_def split: option.splits)

lemma sameButTargets_freshRecord:
  "sameEmission e e' \<Longrightarrow> sameButTargets (freshRecord e) (freshRecord e')"
  by (simp add: sameButTargets_def sameEmission_def freshRecord_def)

lemma sameButTargets_foldl:
  "list_all2 sameEmission es es' \<Longrightarrow> sameButTargets a b \<Longrightarrow>
   sameButTargets (foldl (\<lambda>a e. written e a) a es) (foldl (\<lambda>a e. written e a) b es')"
  by (induction es es' arbitrary: a b rule: list_all2_induct)
     (simp_all add: sameButTargets_written)

lemma sameEmission_filter:
  "list_all2 sameEmission es es' \<Longrightarrow>
   list_all2 sameEmission (filter (\<lambda>e. ce (eKey e) = Some p) es)
     (filter (\<lambda>e. ce (eKey e) = Some p) es')"
proof (induction es es' rule: list_all2_induct)
  case Nil
  then show ?case by simp
next
  case (Cons x xs y ys)
  then show ?case using sameEmission_eKey [of x y] by simp
qed

lemma valueOf_same:
  assumes "list_all2 sameEmission es es'" and "sameEmission e e'"
  shows "sameButTargets (valueOf ce h es e) (valueOf ce h es' e')"
proof (cases "ce (eKey e)")
  case None
  then show ?thesis
    using assms(2) sameEmission_eKey [OF assms(2)]
    by (simp add: valueOf_def sameButTargets_freshRecord)
next
  case (Some p)
  have "sameButTargets (reusedValue ce h es p) (reusedValue ce h es' p)"
    unfolding reusedValue_def
    by (rule sameButTargets_foldl [OF sameEmission_filter [OF assms(1)] sameButTargets_refl])
  then show ?thesis
    using Some sameEmission_eKey [OF assms(2)] by (simp add: valueOf_def)
qed

lemma records_same:
  assumes "list_all2 sameEmission es es'"
  shows "list_all2 sameButTargets (map (valueOf ce h es) es) (map (valueOf ce h es') es')"
proof -
  have "list_all2 (\<lambda>e e'. sameButTargets (valueOf ce h es e) (valueOf ce h es' e')) es es'"
    by (rule list_all2_mono [OF assms]) (rule valueOf_same [OF assms])
  then show ?thesis by (simp add: list_all2_map1 list_all2_map2)
qed

lemma reusedValue_permuted:
  assumes "mset hs' = mset hs"
    and inj: "\<And>k k' q. ce k = Some q \<Longrightarrow> ce k' = Some q \<Longrightarrow> k = k'"
    and W: "\<And>a b. eKey (W a) = eKey (W b) \<Longrightarrow> a = b"
  shows "reusedValue ce h (pre @ map W hs' @ post) p = reusedValue ce h (pre @ map W hs @ post) p"
proof -
  have "filter (\<lambda>e. ce (eKey e) = Some p) (map W hs') = filter (\<lambda>e. ce (eKey e) = Some p) (map W hs)"
  proof (rule filter_permuted_unique)
    show "mset (map W hs') = mset (map W hs)" using assms(1) by simp
    show "\<forall>a \<in> set (map W hs). \<forall>b \<in> set (map W hs).
            ce (eKey a) = Some p \<and> ce (eKey b) = Some p \<longrightarrow> a = b"
      using inj W by (metis (no_types, lifting) imageE list.set_map)
  qed
  then show ?thesis by (simp add: reusedValue_def)
qed

lemma valueOf_permuted:
  assumes "mset hs' = mset hs"
    and "\<And>k k' q. ce k = Some q \<Longrightarrow> ce k' = Some q \<Longrightarrow> k = k'"
    and "\<And>a b. eKey (W a) = eKey (W b) \<Longrightarrow> a = b"
  shows "valueOf ce h (pre @ map W hs' @ post) e = valueOf ce h (pre @ map W hs @ post) e"
  using reusedValue_permuted [OF assms]
  by (simp add: valueOf_def split: option.splits)

lemma foldl_written_SetIdentifier:
  "SetIdentifier (foldl (\<lambda>a e. written e a) a es) = SetIdentifier a"
  by (induction es rule: rev_induct) (simp_all add: written_def)

lemma foldl_written_DNSName:
  "es \<noteq> [] \<Longrightarrow> DNSName (foldl (\<lambda>a e. written e a) a es) = eName (last es)"
  by (induction es rule: rev_induct) (simp_all add: written_def)

lemma getSetID_valueOf:
  assumes "e \<in> set es"
    and H: "\<forall>e \<in> set es. \<forall>p. ce (eKey e) = Some p \<longrightarrow>
              SetIdentifier (h ! p) = eSetID e \<and> getSetID (h ! p) = eKey e"
  shows "getSetID (valueOf ce h es e) = eKey e"
proof (cases "ce (eKey e)")
  case None
  then show ?thesis by (simp add: valueOf_def getSetID_freshRecord)
next
  case (Some p)
  let ?F = "filter (\<lambda>e. ce (eKey e) = Some p) es"
  have "e \<in> set ?F" using assms(1) Some by simp
  then have ne: "?F \<noteq> []" by (metis empty_iff empty_set)
  then have "last ?F \<in> set ?F" by (rule last_in_set)
  then have l: "last ?F \<in> set es" "ce (eKey (last ?F)) = Some p" by simp_all
  have "getSetID (reusedValue ce h es p) = eName (last ?F) @ SetIdentifier (h ! p)"
    using foldl_written_DNSName [OF ne, of "h ! p"] foldl_written_SetIdentifier [of "h ! p" ?F]
    by (simp add: reusedValue_def getSetID_def)
  also have "\<dots> = eKey (last ?F)" using H l by (simp add: eKey_def)
  also have "\<dots> = getSetID (h ! p)" using H l by simp
  also have "\<dots> = eKey e" using H assms(1) Some by simp
  finally show ?thesis using Some by (simp add: valueOf_def)
qed

lemma list_all2_in_set2:
  "list_all2 R xs ys \<Longrightarrow> y \<in> set ys \<Longrightarrow> \<exists>x \<in> set xs. R x y"
  by (induction xs ys rule: list_all2_induct) auto

lemma emissions_Addresses:
  "loadBalancedEmissions L (gw\<lparr>Addresses := a\<rparr>) r host ips hosts
     = loadBalancedEmissions L gw r host ips hosts"
  by (simp add: loadBalancedEmissions_def geoEmissions_def lbEmissions_def weightEmission_def
      geoLbNameOf_def clusterLbNameOf_def getGeoFromLabel_def getWeight_def)

lemma permuted_values:
  assumes "mset addresses' = mset addresses"
  shows "mset (ipValuesOf addresses') = mset (ipValuesOf addresses)"
    and "mset (hostValuesOf addresses') = mset (hostValuesOf addresses)"
    and "list_all P addresses' = list_all P addresses"
proof -
  show "mset (ipValuesOf addresses') = mset (ipValuesOf addresses)"
    using assms by (simp add: ipValuesOf_def)
  show "mset (hostValuesOf addresses') = mset (hostValuesOf addresses)"
    using assms by (simp add: hostValuesOf_def)
  have "set addresses' = set addresses" using assms by (metis set_mset_mset)
  then show "list_all P addresses' = list_all P addresses" by (simp add: list_all_iff)
qed

lemma mset_Nil_iff: "mset xs' = mset xs \<Longrightarrow> xs' = [] \<longleftrightarrow> xs = []"
  by (metis mset_zero_iff)

lemma simpleEmissions_same:
  assumes "mset ips' = mset ips" and "mset hosts' = mset hosts"
  shows "list_all2 sameEmission (simpleEmissions host ips hosts) (simpleEmissions host ips' hosts')"
  using assms mset_Nil_iff [OF assms(1)] mset_Nil_iff [OF assms(2)]
  by (simp add: simpleEmissions_def sameEmission_def)

lemma sameEmission_refl: "sameEmission e e"
  by (simp add: sameEmission_def)

lemma loadBalancedEmissions_same:
  assumes "mset ips' = mset ips"
  shows "list_all2 sameEmission (loadBalancedEmissions L gw r host ips hosts)
           (loadBalancedEmissions L gw r host ips' hosts)"
  using assms mset_Nil_iff [OF assms]
  by (simp add: loadBalancedEmissions_def geoEmissions_def sameEmission_def
      list_all2_refl list_all2_appendI)

lemma loadBalancedEmissions_segment:
  assumes "\<not> (ips = [] \<and> hosts = [])"
  shows "loadBalancedEmissions L gw r host ips hosts =
           (if ips \<noteq> []
            then [\<lparr>eName = clusterLbNameOf L gw r host, eTargets = ips, eType = ARecordType,
                   eSetID = [], eTTL = DefaultTTL, eProperty = None\<rparr>]
            else [])
           @ map (weightEmission L gw r host) hosts
           @ ((if ips \<noteq> [] then [weightEmission L gw r host (clusterLbNameOf L gw r host)] else [])
              @ lbEmissions L gw r host)"
  using assms by (simp add: loadBalancedEmissions_def geoEmissions_def)

lemma weightEmission_key_inj:
  "eKey (weightEmission L gw r host a) = eKey (weightEmission L gw r host b) \<Longrightarrow> a = b"
  by (simp add: weightEmission_def eKey_def)

lemma records_permuted:
  assumes hosts: "mset hosts' = mset hosts"
    and inj: "\<And>k k' q. ce k = Some q \<Longrightarrow> ce k' = Some q \<Longrightarrow> k = k'"
    and H: "\<forall>e \<in> set (loadBalancedEmissions L gw r host ips hosts). \<forall>p.
              ce (eKey e) = Some p \<longrightarrow>
                SetIdentifier (h ! p) = eSetID e \<and> getSetID (h ! p) = eKey e"
  shows "sort_key getSetID (map (valueOf ce h (loadBalancedEmissions L gw r host ips hosts'))
                              (loadBalancedEmissions L gw r host ips hosts'))
       = sort_key getSetID (map (valueOf ce h (loadBalancedEmissions L gw r host ips hosts))
                              (loadBalancedEmissions L gw r host ips hosts))"
proof (cases "ips = [] \<and> hosts = []")
  case True
  then have "hosts' = []" using mset_Nil_iff [OF hosts] by simp
  then show ?thesis using True by simp
next
  case False
  then have False': "\<not> (ips = [] \<and> hosts' = [])" using mset_Nil_iff [OF hosts] by simp
  let ?W = "weightEmission L gw r host"
  let ?pre = "if ips \<noteq> []
            then [\<lparr>eName = clusterLbNameOf L gw r host, eTargets = ips, eType = ARecordType,
                   eSetID = [], eTTL = DefaultTTL, eProperty = None\<rparr>]
            else []"
  let ?post = "(if ips \<noteq> [] then [?W (clusterLbNameOf L gw r host)] else [])
              @ lbEmissions L gw r host"
  let ?es = "?pre @ map ?W hosts @ ?post" and ?es' = "?pre @ map ?W hosts' @ ?post"
  have es: "loadBalancedEmissions L gw r host ips hosts = ?es"
    by (rule loadBalancedEmissions_segment [OF False])
  have es': "loadBalancedEmissions L gw r host ips hosts' = ?es'"
    by (rule loadBalancedEmissions_segment [OF False'])
  let ?f = "valueOf ce h ?es"
  have f: "valueOf ce h ?es' = ?f"
    using valueOf_permuted [OF hosts inj weightEmission_key_inj] by (simp add: fun_eq_iff)
  have unique: "\<forall>a \<in> set (map ?f (map ?W hosts)). \<forall>b \<in> set (map ?f (map ?W hosts)).
                  getSetID a = getSetID b \<longrightarrow> a = b"
  proof (intro ballI impI)
    fix a b
    assume a: "a \<in> set (map ?f (map ?W hosts))" and b: "b \<in> set (map ?f (map ?W hosts))"
      and k: "getSetID a = getSetID b"
    from a obtain x where x: "x \<in> set hosts" "a = ?f (?W x)" by auto
    from b obtain y where y: "y \<in> set hosts" "b = ?f (?W y)" by auto
    have wx: "?W x \<in> set ?es" and wy: "?W y \<in> set ?es" using x(1) y(1) by simp_all
    note H' = H [unfolded es]
    have "getSetID (?f (?W x)) = eKey (?W x)" by (rule getSetID_valueOf [OF wx H'])
    moreover have "getSetID (?f (?W y)) = eKey (?W y)" by (rule getSetID_valueOf [OF wy H'])
    ultimately have "eKey (?W x) = eKey (?W y)" using k x(2) y(2) by simp
    then have "x = y" by (rule weightEmission_key_inj)
    then show "a = b" using x(2) y(2) by simp
  qed
  have "sort_key getSetID (map ?f ?pre @ map ?f (map ?W hosts') @ map ?f ?post)
      = sort_key getSetID (map ?f ?pre @ map ?f (map ?W hosts) @ map ?f ?post)"
  proof (rule sort_key_permuted_segment [OF _ unique])
    show "mset (map ?f (map ?W hosts')) = mset (map ?f (map ?W hosts))"
      using hosts by (metis mset_map)
  qed
  then have "sort_key getSetID (map ?f ?es') = sort_key getSetID (map ?f ?es)"
    by (simp only: map_append)
  then show ?thesis unfolding es es' f .
qed

lemma GenerateEndpoints_emissions:
  "GenerateEndpoints L (Some gw) dnsRecord listener (Some r) h =
     (case Hostname listener of
        None \<Rightarrow> Return [] (Some ErrListenerHostnameEmpty) h
      | Some host \<Rightarrow>
          (case dnsRecord of
             None \<Rightarrow> Return [] (Some ErrRequireCurrentEndpoints) h
           | Some dnsr \<Rightarrow>
               (case currentEndpointsLoop h (Endpoints dnsr) Map.empty of
                  None \<Rightarrow> Panic
                | Some ce \<Rightarrow>
                    (case Validate r of
                       Some err \<Rightarrow> Return [] (Some err) h
                     | None \<Rightarrow>
                         if Strategy r = SimpleRoutingStrategy
                            \<or> Strategy r = LoadBalancedRoutingStrategy
                         then (if noNilType gw
                               then sortAndReturn L (Some (emitAll ce (emissionsOf L gw r host) [] h))
                               else Panic)
                         else Return [] (Some (ErrUnknownRoutingStrategy (Strategy r))) h))))"
  by (auto simp: GenerateEndpoints_def getSimpleEndpoints_emitAll getLoadBalancedEndpoints_emitAll
      addressLoop_eq emissionsOf_def noNilType_def sortAndReturn_def SimpleRoutingStrategy_def
      LoadBalancedRoutingStrategy_def split: option.splits)

lemma sortAndReturn_records:
  assumes "heapInv ce n h"
    and "length es \<le> 12 \<or> distinct (map getSetID (map (valueOf ce h es) es))"
  shows "returnedRecords (sortAndReturn L (Some (emitAll ce es [] h)))
           = sort_key getSetID (map (valueOf ce h es) es)"
    and "returnedError (sortAndReturn L (Some (emitAll ce es [] h))) = None"
    and "sortAndReturn L (Some (emitAll ce es [] h)) \<noteq> Panic"
proof -
  obtain ps h1 where run: "emitAll ce es [] h = (ps, h1)" by (cases "emitAll ce es [] h")
  note records = emitAll_records [OF assms(1) run]
  have "length ps = length es" using emitAll_length [of ce es "[]" h] run by simp
  then have "length ps \<le> 12 \<or> distinct (map getSetID (map (\<lambda>p. h1 ! p) ps))"
    using assms(2) records by simp
  then have "map (\<lambda>p. h1 ! p) (sortSlice L h1 ps) = sort_key getSetID (map (valueOf ce h es) es)"
    using records by (simp add: sortSlice_records)
  then show "returnedRecords (sortAndReturn L (Some (emitAll ce es [] h)))
           = sort_key getSetID (map (valueOf ce h es) es)"
    using run by (simp add: sortAndReturn_def returnedRecords_def)
  show "returnedError (sortAndReturn L (Some (emitAll ce es [] h))) = None"
    using run by (simp add: sortAndReturn_def returnedError_def)
  show "sortAndReturn L (Some (emitAll ce es [] h)) \<noteq> Panic"
    using run by (simp add: sortAndReturn_def)
qed

lemma sameOutput_refl: "sameOutput out out"
  by (simp add: sameOutput_def list_all2_refl sameButTargets_refl)

lemma noKeyCollision_held:
  assumes ce: "currentEndpointsLoop h previous Map.empty = Some ce"
    and no: "noKeyCollision h previous es"
  shows "\<forall>e \<in> set es. \<forall>p. ce (eKey e) = Some p \<longrightarrow>
           SetIdentifier (h ! p) = eSetID e \<and> getSetID (h ! p) = eKey e"
proof (intro ballI allI impI)
  fix e p assume e: "e \<in> set es" and p: "ce (eKey e) = Some p"
  from currentEndpointsLoop_Some [OF ce] p
  have prev: "Some p \<in> set previous" and key: "getSetID (h ! p) = eKey e" by auto
  from no e prev have "getSetID (h ! p) = eKey e \<longrightarrow> SetIdentifier (h ! p) = eSetID e"
    by (auto simp: noKeyCollision_def list_all_iff split: option.splits)
  then show "SetIdentifier (h ! p) = eSetID e \<and> getSetID (h ! p) = eKey e" using key by simp
qed

lemma held_same:
  assumes "list_all2 sameEmission es es1"
    and "\<forall>e \<in> set es. \<forall>p. ce (eKey e) = Some p \<longrightarrow>
           SetIdentifier (h ! p) = eSetID e \<and> getSetID (h ! p) = eKey e"
  shows "\<forall>e \<in> set es1. \<forall>p. ce (eKey e) = Some p \<longrightarrow>
           SetIdentifier (h ! p) = eSetID e \<and> getSetID (h ! p) = eKey e"
proof (intro ballI allI impI)
  fix e1 p assume "e1 \<in> set es1" and p: "ce (eKey e1) = Some p"
  then obtain e where e: "e \<in> set es" "sameEmission e e1"
    using list_all2_in_set2 [OF assms(1)] by blast
  then have "eKey e = eKey e1" "eSetID e = eSetID e1"
    by (simp_all add: sameEmission_def eKey_def)
  then show "SetIdentifier (h ! p) = eSetID e1 \<and> getSetID (h ! p) = eKey e1"
    using assms(2) e(1) p by force
qed

lemma currentEndpointsLoop_inj:
  assumes "currentEndpointsLoop h previous Map.empty = Some ce"
  shows "ce k = Some q \<Longrightarrow> ce k' = Some q \<Longrightarrow> k = k'"
proof -
  assume "ce k = Some q" and "ce k' = Some q"
  then have "getSetID (h ! q) = k" and "getSetID (h ! q) = k'"
    using currentEndpointsLoop_Some [OF assms] by blast+
  then show "k = k'" by simp
qed

lemma permuted_records:
  assumes perm: "mset addresses' = mset (Addresses gw)"
    and ce: "currentEndpointsLoop h previous Map.empty = Some ce"
    and no: "Strategy r \<noteq> SimpleRoutingStrategy \<longrightarrow>
               noKeyCollision h previous (emissionsOf L gw r host)"
  shows "list_all2 sameButTargets
           (sort_key getSetID (map (valueOf ce h (emissionsOf L gw r host)) (emissionsOf L gw r host)))
           (sort_key getSetID
              (map (valueOf ce h (emissionsOf L (gw\<lparr>Addresses := addresses'\<rparr>) r host))
                 (emissionsOf L (gw\<lparr>Addresses := addresses'\<rparr>) r host)))"
proof -
  let ?ips = "ipValuesOf (Addresses gw)" and ?hosts = "hostValuesOf (Addresses gw)"
  let ?ips' = "ipValuesOf addresses'" and ?hosts' = "hostValuesOf addresses'"
  note vals = permuted_values(1,2) [OF perm]
  show ?thesis
  proof (cases "Strategy r = SimpleRoutingStrategy")
    case True
    have "list_all2 sameEmission (simpleEmissions host ?ips ?hosts) (simpleEmissions host ?ips' ?hosts')"
      using vals by (intro simpleEmissions_same) simp_all
    then have "list_all2 sameButTargets
        (sort_key getSetID (map (valueOf ce h (simpleEmissions host ?ips ?hosts))
                              (simpleEmissions host ?ips ?hosts)))
        (sort_key getSetID (map (valueOf ce h (simpleEmissions host ?ips' ?hosts'))
                              (simpleEmissions host ?ips' ?hosts')))"
      by (intro list_all2_sort_key records_same sameButTargets_getSetID)
    then show ?thesis using True by (simp add: emissionsOf_def)
  next
    case False
    let ?es = "loadBalancedEmissions L gw r host ?ips ?hosts"
    let ?es1 = "loadBalancedEmissions L gw r host ?ips' ?hosts"
    let ?es' = "loadBalancedEmissions L gw r host ?ips' ?hosts'"
    have same: "list_all2 sameEmission ?es ?es1"
      using vals(1) by (intro loadBalancedEmissions_same) simp
    have H: "\<forall>e \<in> set ?es. \<forall>p. ce (eKey e) = Some p \<longrightarrow>
               SetIdentifier (h ! p) = eSetID e \<and> getSetID (h ! p) = eKey e"
      using noKeyCollision_held [OF ce] no False by (simp add: emissionsOf_def)
    have H1: "\<forall>e \<in> set ?es1. \<forall>p. ce (eKey e) = Some p \<longrightarrow>
               SetIdentifier (h ! p) = eSetID e \<and> getSetID (h ! p) = eKey e"
      by (rule held_same [OF same H])
    have 1: "list_all2 sameButTargets (sort_key getSetID (map (valueOf ce h ?es) ?es))
               (sort_key getSetID (map (valueOf ce h ?es1) ?es1))"
      using same by (intro list_all2_sort_key records_same sameButTargets_getSetID)
    have 2: "sort_key getSetID (map (valueOf ce h ?es') ?es')
               = sort_key getSetID (map (valueOf ce h ?es1) ?es1)"
      using vals(2) currentEndpointsLoop_inj [OF ce] H1 by (intro records_permuted) auto
    show ?thesis using 1 2 False by (simp add: emissionsOf_def emissions_Addresses)
  qed
qed

lemma keys_valueOf:
  assumes "\<forall>e \<in> set es. \<forall>p. ce (eKey e) = Some p \<longrightarrow>
             SetIdentifier (h ! p) = eSetID e \<and> getSetID (h ! p) = eKey e"
  shows "map getSetID (map (valueOf ce h es) es) = map eKey es"
proof -
  have "\<forall>e \<in> set es. getSetID (valueOf ce h es e) = eKey e"
    using getSetID_valueOf [OF _ assms] by blast
  then show ?thesis by simp
qed

lemma sameEmission_keys:
  "list_all2 sameEmission es es' \<Longrightarrow> map eKey es = map eKey es'"
  by (induction es es' rule: list_all2_induct) (simp_all add: sameEmission_eKey)

lemma loadBalancedEmissions_mset:
  assumes "mset hosts' = mset hosts"
  shows "mset (loadBalancedEmissions L gw r host ips hosts')
           = mset (loadBalancedEmissions L gw r host ips hosts)"
proof (cases "ips = [] \<and> hosts = []")
  case True
  then have "hosts' = []" using mset_Nil_iff [OF assms] by simp
  then show ?thesis using True by simp
next
  case False
  then have False': "\<not> (ips = [] \<and> hosts' = [])" using mset_Nil_iff [OF assms] by simp
  have "mset (map (weightEmission L gw r host) hosts') = mset (map (weightEmission L gw r host) hosts)"
    using assms by (metis mset_map)
  then show ?thesis
    unfolding loadBalancedEmissions_segment [OF False] loadBalancedEmissions_segment [OF False']
    by (simp only: mset_append)
qed

lemma permuted_ties:
  assumes perm: "mset addresses' = mset (Addresses gw)"
    and ce: "currentEndpointsLoop h previous Map.empty = Some ce"
    and no: "Strategy r \<noteq> SimpleRoutingStrategy \<longrightarrow>
               noKeyCollision h previous (emissionsOf L gw r host)
               \<and> (length (emissionsOf L gw r host) \<le> 12
                    \<or> distinct (map eKey (emissionsOf L gw r host)))"
  shows "length (emissionsOf L gw r host) \<le> 12
           \<or> distinct (map getSetID (map (valueOf ce h (emissionsOf L gw r host))
                                       (emissionsOf L gw r host)))"
    and "length (emissionsOf L (gw\<lparr>Addresses := addresses'\<rparr>) r host) \<le> 12
           \<or> distinct (map getSetID
                 (map (valueOf ce h (emissionsOf L (gw\<lparr>Addresses := addresses'\<rparr>) r host))
                    (emissionsOf L (gw\<lparr>Addresses := addresses'\<rparr>) r host)))"
proof -
  let ?ips = "ipValuesOf (Addresses gw)" and ?hosts = "hostValuesOf (Addresses gw)"
  let ?ips' = "ipValuesOf addresses'" and ?hosts' = "hostValuesOf addresses'"
  let ?es = "loadBalancedEmissions L gw r host ?ips ?hosts"
  let ?es1 = "loadBalancedEmissions L gw r host ?ips' ?hosts"
  let ?es' = "loadBalancedEmissions L gw r host ?ips' ?hosts'"
  note vals = permuted_values(1,2) [OF perm]
  have simple: "length (simpleEmissions host ips hosts) \<le> 12" for ips hosts
    by (simp add: simpleEmissions_def)
  have "(length (emissionsOf L gw r host) \<le> 12
           \<or> distinct (map getSetID (map (valueOf ce h (emissionsOf L gw r host))
                                       (emissionsOf L gw r host))))
      \<and> (length (emissionsOf L (gw\<lparr>Addresses := addresses'\<rparr>) r host) \<le> 12
           \<or> distinct (map getSetID
                 (map (valueOf ce h (emissionsOf L (gw\<lparr>Addresses := addresses'\<rparr>) r host))
                    (emissionsOf L (gw\<lparr>Addresses := addresses'\<rparr>) r host))))"
  proof (cases "Strategy r = SimpleRoutingStrategy")
    case True
    then show ?thesis using simple by (simp add: emissionsOf_def)
  next
    case False
    have es: "emissionsOf L gw r host = ?es" using False by (simp add: emissionsOf_def)
    have es': "emissionsOf L (gw\<lparr>Addresses := addresses'\<rparr>) r host = ?es'"
      using False by (simp add: emissionsOf_def emissions_Addresses)
    have same: "list_all2 sameEmission ?es ?es1"
      using vals(1) by (intro loadBalancedEmissions_same) simp
    have m: "mset ?es' = mset ?es1" using vals(2) by (rule loadBalancedEmissions_mset)
    have nk: "noKeyCollision h previous ?es" using no False es by simp
    have H: "\<forall>e \<in> set ?es. \<forall>p. ce (eKey e) = Some p \<longrightarrow>
               SetIdentifier (h ! p) = eSetID e \<and> getSetID (h ! p) = eKey e"
      by (rule noKeyCollision_held [OF ce nk])
    have H1: "\<forall>e \<in> set ?es1. \<forall>p. ce (eKey e) = Some p \<longrightarrow>
               SetIdentifier (h ! p) = eSetID e \<and> getSetID (h ! p) = eKey e"
      by (rule held_same [OF same H])
    have "set ?es' = set ?es1" using m by (metis set_mset_mset)
    then have H': "\<forall>e \<in> set ?es'. \<forall>p. ce (eKey e) = Some p \<longrightarrow>
               SetIdentifier (h ! p) = eSetID e \<and> getSetID (h ! p) = eKey e"
      using H1 by simp
    have len: "length ?es' = length ?es"
      using m list_all2_lengthD [OF same] by (metis size_mset)
    have "mset (map eKey ?es') = mset (map eKey ?es1)" using m by (metis mset_map)
    then have keys: "mset (map eKey ?es') = mset (map eKey ?es)"
      using sameEmission_keys [OF same] by simp
    have d: "distinct (map eKey ?es') \<longleftrightarrow> distinct (map eKey ?es)"
      by (rule mset_eq_imp_distinct_iff [OF keys])
    have "length ?es \<le> 12 \<or> distinct (map eKey ?es)" using no False es by simp
    then show ?thesis
      unfolding es es' keys_valueOf [OF H] keys_valueOf [OF H'] using len d by auto
  qed
  then show "length (emissionsOf L gw r host) \<le> 12
           \<or> distinct (map getSetID (map (valueOf ce h (emissionsOf L gw r host))
                                       (emissionsOf L gw r host)))"
    and "length (emissionsOf L (gw\<lparr>Addresses := addresses'\<rparr>) r host) \<le> 12
           \<or> distinct (map getSetID
                 (map (valueOf ce h (emissionsOf L (gw\<lparr>Addresses := addresses'\<rparr>) r host))
                    (emissionsOf L (gw\<lparr>Addresses := addresses'\<rparr>) r host)))"
    by simp_all
qed

lemma GenerateEndpoints_permuted_addresses:
  assumes perm: "mset addresses' = mset (Addresses gw)"
    and host: "Hostname listener = Some host"
    and no: "Strategy r = LoadBalancedRoutingStrategy \<longrightarrow>
               noKeyCollision h (Endpoints dnsr) (emissionsOf L gw r host)
               \<and> (length (emissionsOf L gw r host) \<le> 12
                    \<or> distinct (map eKey (emissionsOf L gw r host)))"
  shows "sameOutput (GenerateEndpoints L (Some gw) (Some dnsr) listener (Some r) h)
           (GenerateEndpoints L (Some (gw\<lparr>Addresses := addresses'\<rparr>)) (Some dnsr) listener (Some r) h)"
proof (cases "currentEndpointsLoop h (Endpoints dnsr) Map.empty")
  case None
  then show ?thesis using host by (simp add: GenerateEndpoints_emissions sameOutput_refl)
next
  case (Some ce)
  note nil = permuted_values(3) [OF perm, of "\<lambda>gwa. Type gwa \<noteq> None"]
  show ?thesis
  proof (cases "Validate r = None
      \<and> (Strategy r = SimpleRoutingStrategy \<or> Strategy r = LoadBalancedRoutingStrategy)
      \<and> noNilType gw")
    case True
    then have ties: "Strategy r \<noteq> SimpleRoutingStrategy \<longrightarrow>
               noKeyCollision h (Endpoints dnsr) (emissionsOf L gw r host)
               \<and> (length (emissionsOf L gw r host) \<le> 12
                    \<or> distinct (map eKey (emissionsOf L gw r host)))"
      using no by auto
    then have no': "Strategy r \<noteq> SimpleRoutingStrategy \<longrightarrow>
               noKeyCollision h (Endpoints dnsr) (emissionsOf L gw r host)"
      by simp
    have t: "noNilType (gw\<lparr>Addresses := addresses'\<rparr>)"
      using True nil by (simp add: noNilType_def)
    note inv = currentEndpointsLoop_heapInv [OF Some]
    note sorted1 = sortAndReturn_records [OF inv permuted_ties(1) [OF perm Some ties]]
    note sorted2 = sortAndReturn_records [OF inv permuted_ties(2) [OF perm Some ties]]
    show ?thesis
      using True t host Some permuted_records [OF perm Some no']
      by (simp add: GenerateEndpoints_emissions sameOutput_def sorted1 sorted2)
  next
    case False
    then show ?thesis
      using host Some nil
      by (auto simp: GenerateEndpoints_emissions sameOutput_refl noNilType_def
          split: option.splits)
  qed
qed

lemma getWeightLoop_filter:
  assumes "\<forall>c \<in> set cws. LabelSelectorAsSelector L (Selector c) \<noteq> None"
  shows "getWeightLoop L (Labels gw) w cws =
           (case filter (selectorMatches L gw) cws of [] \<Rightarrow> w | c # rest \<Rightarrow> Weight c)"
  using assms by (induction cws) (auto simp: selectorMatches_def split: option.splits)

lemma single_permuted:
  assumes "mset ys' = mset ys" and "length (filter P ys) = 1"
  shows "filter P ys' = filter P ys"
proof -
  obtain c where c: "filter P ys = [c]"
    using assms(2) by (cases "filter P ys") auto
  have "mset (filter P ys') = mset [c]" using assms(1) c by (metis mset_filter)
  then have "mset (filter P ys') = {#c#}" by (simp only: mset.simps)
  then have "filter P ys' = [c]" by (simp only: mset_single_iff)
  then show ?thesis using c by simp
qed

lemma getWeight_permuted:
  assumes "mset weights' = mset (CustomWeights r)"
    and "\<forall>c \<in> set (CustomWeights r). LabelSelectorAsSelector L (Selector c) \<noteq> None"
    and "length (filter (selectorMatches L gw) (CustomWeights r)) = 1"
  shows "getWeight L (r\<lparr>CustomWeights := weights'\<rparr>) gw = getWeight L r gw"
proof -
  have "set weights' = set (CustomWeights r)" using assms(1) by (metis set_mset_mset)
  then have "\<forall>c \<in> set weights'. LabelSelectorAsSelector L (Selector c) \<noteq> None"
    using assms(2) by simp
  then show ?thesis
    using assms(2) single_permuted [OF assms(1,3)]
    by (simp add: getWeight_def getWeightLoop_filter)
qed

lemma emissionsOf_weights:
  "getWeight L (r\<lparr>CustomWeights := weights'\<rparr>) gw = getWeight L r gw \<Longrightarrow>
   emissionsOf L gw (r\<lparr>CustomWeights := weights'\<rparr>) host = emissionsOf L gw r host"
  by (simp add: emissionsOf_def loadBalancedEmissions_def geoEmissions_def lbEmissions_def
      weightEmission_def clusterLbNameOf_def)

lemma Validate_permuted:
  assumes "mset weights' = mset (CustomWeights r)"
  shows "Validate (r\<lparr>CustomWeights := weights'\<rparr>) = None \<longleftrightarrow> Validate r = None"
proof -
  have "set weights' = set (CustomWeights r)" using assms by (metis set_mset_mset)
  then show ?thesis by (simp add: Validate_def validateCustomWeights_None)
qed

lemma GenerateEndpoints_permuted_weights:
  assumes "mset weights' = mset (CustomWeights r)"
    and "\<forall>c \<in> set (CustomWeights r). LabelSelectorAsSelector L (Selector c) \<noteq> None"
    and "length (filter (selectorMatches L gw) (CustomWeights r)) = 1"
  shows "returnedRecords (GenerateEndpoints L (Some gw) dnsRecord listener
                            (Some (r\<lparr>CustomWeights := weights'\<rparr>)) h)
           = returnedRecords (GenerateEndpoints L (Some gw) dnsRecord listener (Some r) h)"
    and "Validate r = None \<Longrightarrow>
         GenerateEndpoints L (Some gw) dnsRecord listener (Some (r\<lparr>CustomWeights := weights'\<rparr>)) h
           = GenerateEndpoints L (Some gw) dnsRecord listener (Some r) h"
proof -
  note w = getWeight_permuted [OF assms]
  note v = Validate_permuted [OF assms(1)]
  show valid: "GenerateEndpoints L (Some gw) dnsRecord listener (Some (r\<lparr>CustomWeights := weights'\<rparr>)) h
           = GenerateEndpoints L (Some gw) dnsRecord listener (Some r) h" if "Validate r = None"
    using that v emissionsOf_weights [OF w]
    by (simp add: GenerateEndpoints_emissions split: option.splits)
  show "returnedRecords (GenerateEndpoints L (Some gw) dnsRecord listener
                            (Some (r\<lparr>CustomWeights := weights'\<rparr>)) h)
           = returnedRecords (GenerateEndpoints L (Some gw) dnsRecord listener (Some r) h)"
  proof (cases "Validate r")
    case None
    then show ?thesis using valid by simp
  next
    case (Some err)
    then obtain err' where "Validate (r\<lparr>CustomWeights := weights'\<rparr>) = Some err'"
      using v by (cases "Validate (r\<lparr>CustomWeights := weights'\<rparr>)") auto
    then show ?thesis using Some
      by (simp add: GenerateEndpoints_emissions returnedRecords_def split: option.splits)
  qed
qed

text \<open>
  Claim C8, amended. Take two calls that differ only by a permutation of the addresses of
  the gateway, with a listener that has a hostname; under the load-balanced strategy, let
  no previous record have the key of an emitted record and another set identifier, and
  let the call emit at most twelve records or no two records with the same key (beyond
  twelve records \<^verbatim>\<open>sort.Slice\<close> is not stable, and the order of records with equal keys may
  depend on the order of the addresses). Then both calls panic or none does, they return
  the same error or none, and the records they return are the same, position by
  position, except that the targets of a record may be in another order. Take two calls that differ only by a permutation of the custom
  weights, let every selector compile and exactly one entry match the labels of the
  gateway. Then the weight is the same, the records returned are the same and, when the
  routing is valid, the whole outcome (the pointers, the heap) is the same.
\<close>

theorem GenerateEndpoints_permuted:
  "(mset addresses' = mset (Addresses gw) \<and> Hostname listener = Some host
      \<and> (Strategy r = LoadBalancedRoutingStrategy \<longrightarrow>
            noKeyCollision h (Endpoints dnsr) (emissionsOf L gw r host)
            \<and> (length (emissionsOf L gw r host) \<le> 12
                 \<or> distinct (map eKey (emissionsOf L gw r host))))
      \<longrightarrow> sameOutput (GenerateEndpoints L (Some gw) (Some dnsr) listener (Some r) h)
             (GenerateEndpoints L (Some (gw\<lparr>Addresses := addresses'\<rparr>)) (Some dnsr) listener
                (Some r) h)) \<and>
   (mset weights' = mset (CustomWeights r)
      \<and> (\<forall>c \<in> set (CustomWeights r). LabelSelectorAsSelector L (Selector c) \<noteq> None)
      \<and> length (filter (selectorMatches L gw) (CustomWeights r)) = 1
      \<longrightarrow> getWeight L (r\<lparr>CustomWeights := weights'\<rparr>) gw = getWeight L r gw
          \<and> returnedRecords (GenerateEndpoints L (Some gw) dnsRecord listener
                                (Some (r\<lparr>CustomWeights := weights'\<rparr>)) h)
              = returnedRecords (GenerateEndpoints L (Some gw) dnsRecord listener (Some r) h)
          \<and> (Validate r = None \<longrightarrow>
                GenerateEndpoints L (Some gw) dnsRecord listener
                    (Some (r\<lparr>CustomWeights := weights'\<rparr>)) h
                  = GenerateEndpoints L (Some gw) dnsRecord listener (Some r) h))"
  using GenerateEndpoints_permuted_addresses [of addresses' gw listener host r h dnsr L]
    getWeight_permuted [of weights' r L gw]
    GenerateEndpoints_permuted_weights [of weights' r L gw dnsRecord listener h]
  by blast

theorem GenerateEndpoints_permuted_witness:
  "mset (Addresses swappedGateway) = mset (Addresses sampleGateway) \<and>
   noKeyCollision [] [] (emissionsOf sampleLib sampleGateway sampleRouting ''*.Ex.io'') \<and>
   length (emissionsOf sampleLib sampleGateway sampleRouting ''*.Ex.io'') \<le> 12 \<and>
   sameOutput
     (GenerateEndpoints sampleLib (Some sampleGateway) (Some \<lparr>Endpoints = []\<rparr>)
        \<lparr>Hostname = Some ''*.Ex.io''\<rparr> (Some sampleRouting) [])
     (GenerateEndpoints sampleLib (Some swappedGateway) (Some \<lparr>Endpoints = []\<rparr>)
        \<lparr>Hostname = Some ''*.Ex.io''\<rparr> (Some sampleRouting) []) \<and>
   length (filter (selectorMatches sampleLib sampleGateway)
             [\<lparr>Weight = 50, Selector = selectorBar\<rparr>, \<lparr>Weight = 100, Selector = selectorFoo\<rparr>]) = 1 \<and>
   getWeight sampleLib
     (sampleRouting\<lparr>CustomWeights := [\<lparr>Weight = 100, Selector = selectorFoo\<rparr>,
                                       \<lparr>Weight = 50, Selector = selectorBar\<rparr>]\<rparr>) sampleGateway
     = getWeight sampleLib
         (sampleRouting\<lparr>CustomWeights := [\<lparr>Weight = 50, Selector = selectorBar\<rparr>,
                                           \<lparr>Weight = 100, Selector = selectorFoo\<rparr>]\<rparr>) sampleGateway \<and>
   GenerateEndpoints sampleLib (Some sampleGateway) (Some \<lparr>Endpoints = []\<rparr>)
       \<lparr>Hostname = Some ''*.Ex.io''\<rparr>
       (Some (sampleRouting\<lparr>CustomWeights := [\<lparr>Weight = 100, Selector = selectorFoo\<rparr>,
                                               \<lparr>Weight = 50, Selector = selectorBar\<rparr>]\<rparr>)) []
     = GenerateEndpoints sampleLib (Some sampleGateway) (Some \<lparr>Endpoints = []\<rparr>)
         \<lparr>Hostname = Some ''*.Ex.io''\<rparr>
         (Some (sampleRouting\<lparr>CustomWeights := [\<lparr>Weight = 50, Selector = selectorBar\<rparr>,
                                                 \<lparr>Weight = 100, Selector = selectorFoo\<rparr>]\<rparr>)) []"
proof -
  let ?r = "sampleRouting\<lparr>CustomWeights := [\<lparr>Weight = 50, Selector = selectorBar\<rparr>,
                                            \<lparr>Weight = 100, Selector = selectorFoo\<rparr>]\<rparr>"
  let ?w' = "[\<lparr>Weight = 100, Selector = selectorFoo\<rparr>, \<lparr>Weight = 50, Selector = selectorBar\<rparr>]"
  have perm: "mset (Addresses swappedGateway) = mset (Addresses sampleGateway)"
    by (simp add: swappedGateway_def sampleGateway_def)
  have no: "noKeyCollision [] [] (emissionsOf sampleLib sampleGateway sampleRouting ''*.Ex.io'')"
    by (simp add: noKeyCollision_def list_all_iff)
  have few: "length (emissionsOf sampleLib sampleGateway sampleRouting ''*.Ex.io'') \<le> 12"
    by code_simp
  have swapped: "sampleGateway\<lparr>Addresses := Addresses swappedGateway\<rparr> = swappedGateway"
    by (simp add: swappedGateway_def)
  have weights: "mset ?w' = mset (CustomWeights ?r)" by simp
  have compile: "\<forall>c \<in> set (CustomWeights ?r). LabelSelectorAsSelector sampleLib (Selector c) \<noteq> None"
    by (simp add: sampleLib_def sampleSelector_def selectorBar_def selectorFoo_def)
  have one: "length (filter (selectorMatches sampleLib sampleGateway) (CustomWeights ?r)) = 1"
    by (simp add: selectorMatches_def sampleLib_def sampleSelector_def selectorBar_def
        selectorFoo_def sampleGateway_def LabelLBAttributeGeoCode_def)
  have valid: "Validate ?r = None"
    by (simp add: Validate_def sampleRouting_def lenLabels_def selectorBar_def selectorFoo_def)
  have update: "?r\<lparr>CustomWeights := ?w'\<rparr> = sampleRouting\<lparr>CustomWeights := ?w'\<rparr>" by simp
  show ?thesis
    using GenerateEndpoints_permuted [where addresses' = "Addresses swappedGateway"
        and gw = sampleGateway and listener = "\<lparr>Hostname = Some ''*.Ex.io''\<rparr>"
        and host = "''*.Ex.io''" and r = sampleRouting and h = "[]"
        and dnsr = "\<lparr>Endpoints = []\<rparr>" and L = sampleLib and weights' = "CustomWeights sampleRouting"]
      GenerateEndpoints_permuted [where addresses' = "Addresses sampleGateway"
        and gw = sampleGateway and listener = "\<lparr>Hostname = Some ''*.Ex.io''\<rparr>"
        and host = "''*.Ex.io''" and r = ?r and h = "[]" and dnsRecord = "Some \<lparr>Endpoints = []\<rparr>"
        and dnsr = "\<lparr>Endpoints = []\<rparr>" and L = sampleLib and weights' = ?w']
      perm no few weights compile one valid
    unfolding swapped update
    by simp
qed

text \<open>
  Claim C8 as stated fails twice. With the two IP addresses of the gateway in the other
  order, the targets of the address record are in the other order. And with one
  matching selector and a selector that does not compile, the weight is the default
  weight 120 when the selector that does not compile comes first, and the weight 100 of
  the matching entry when it comes second.
\<close>

theorem GenerateEndpoints_permuted_counterexample:
  "GenerateEndpoints sampleLib (Some sampleGateway) (Some \<lparr>Endpoints = []\<rparr>)
       \<lparr>Hostname = Some ''www.example.com''\<rparr>
       (Some (sampleRouting\<lparr>Strategy := SimpleRoutingStrategy\<rparr>)) []
     = Return [0] None
         [\<lparr>DNSName = ''www.example.com'', Targets = [''192.0.2.1'', ''192.0.2.2''],
           RecordType = ''A'', SetIdentifier = [], RecordTTL = 60, EndpointLabels = [],
           ProviderSpecific = []\<rparr>] \<and>
   GenerateEndpoints sampleLib (Some swappedGateway) (Some \<lparr>Endpoints = []\<rparr>)
       \<lparr>Hostname = Some ''www.example.com''\<rparr>
       (Some (sampleRouting\<lparr>Strategy := SimpleRoutingStrategy\<rparr>)) []
     = Return [0] None
         [\<lparr>DNSName = ''www.example.com'', Targets = [''192.0.2.2'', ''192.0.2.1''],
           RecordType = ''A'', SetIdentifier = [], RecordTTL = 60, EndpointLabels = [],
           ProviderSpecific = []\<rparr>] \<and>
   map ProviderSpecific (returnedRecords
       (GenerateEndpoints sampleLib (Some hostGateway) (Some \<lparr>Endpoints = []\<rparr>)
          \<lparr>Hostname = Some ''*.Ex.io''\<rparr>
          (Some (sampleRouting\<lparr>CustomWeights := [\<lparr>Weight = 60, Selector = selectorMalformed\<rparr>,
                                                  \<lparr>Weight = 100, Selector = selectorFoo\<rparr>]\<rparr>)) []))
     = [[], [(''weight'', ''120'')], [(''geo-code'', ''IE'')], [(''geo-code'', ''*'')]] \<and>
   map ProviderSpecific (returnedRecords
       (GenerateEndpoints sampleLib (Some hostGateway) (Some \<lparr>Endpoints = []\<rparr>)
          \<lparr>Hostname = Some ''*.Ex.io''\<rparr>
          (Some (sampleRouting\<lparr>CustomWeights := [\<lparr>Weight = 100, Selector = selectorFoo\<rparr>,
                                                  \<lparr>Weight = 60, Selector = selectorMalformed\<rparr>]\<rparr>)) []))
     = [[], [(''weight'', ''100'')], [(''geo-code'', ''IE'')], [(''geo-code'', ''*'')]]"
  by code_simp

end
